theory Spec2Isabelle
  imports Complex_Main "HOL-Library.Multiset"
begin

section \<open>Python values and errors\<close>

text \<open>
  Node identifiers, demands, capacities and indices are Python integers (\<open>int\<close>).
  Distances, times and costs are Python floats; they are modelled as real numbers, so
  rounding, infinities and NaN are outside the model.  Every exception that the modelled
  code can raise is a value of \<open>error\<close>, returned as \<open>Inl\<close>.
\<close>

datatype error = KeyError | IndexError | ZeroDivisionError | OverflowError | ValueError string

text \<open>
  \<open>xs[i]\<close> on a Python list or a numpy array.  An index from \<open>-len(xs)\<close> to \<open>-1\<close> reads
  from the end; anything outside \<open>-len(xs) .. len(xs) - 1\<close> raises IndexError.
\<close>

definition py_get :: "'a list \<Rightarrow> int \<Rightarrow> error + 'a" where
  "py_get xs i =
     (if 0 \<le> i \<and> i < int (length xs) then Inr (xs ! nat i)
      else if - int (length xs) \<le> i \<and> i < 0 then Inr (xs ! nat (int (length xs) + i))
      else Inl IndexError)"

section \<open>vrp\_instance.py: VRPInstance\<close>

record VRPInstance =
  capacity :: int
  depot :: int
  node_coords :: "int \<rightharpoonup> real \<times> real"
  demands :: "int \<rightharpoonup> int"
  distance_matrix :: "real list list option"
  time_windows :: "int \<rightharpoonup> real \<times> real"
  service_times :: "int \<rightharpoonup> real"
  vehicle_count :: int
  vehicle_capacities :: "int list"
  dynamic_distances :: "real list list list"

text \<open>
  \<open>get_distance(from_node, to_node, time_slot)\<close>: the dynamic table of the time slot if
  there is one, else the static matrix, else the Euclidean distance of the coordinates.
\<close>

definition get_distance :: "VRPInstance \<Rightarrow> int \<Rightarrow> int \<Rightarrow> int \<Rightarrow> error + real" where
  "get_distance inst from_node to_node time_slot =
     (if dynamic_distances inst \<noteq> [] \<and> time_slot < int (length (dynamic_distances inst)) then
        (case py_get (dynamic_distances inst) time_slot of
           Inl e \<Rightarrow> Inl e
         | Inr m \<Rightarrow> (case py_get m from_node of Inl e \<Rightarrow> Inl e | Inr row \<Rightarrow> py_get row to_node))
      else
        (case distance_matrix inst of
           Some m \<Rightarrow> (case py_get m from_node of Inl e \<Rightarrow> Inl e | Inr row \<Rightarrow> py_get row to_node)
         | None \<Rightarrow>
            (case node_coords inst from_node of
               None \<Rightarrow> Inl KeyError
             | Some (x1, y1) \<Rightarrow>
                (case node_coords inst to_node of
                   None \<Rightarrow> Inl KeyError
                 | Some (x2, y2) \<Rightarrow> Inr (sqrt ((x1 - x2)\<^sup>2 + (y1 - y2)\<^sup>2))))))"

definition is_feasible_time_window :: "VRPInstance \<Rightarrow> int \<Rightarrow> real \<Rightarrow> bool" where
  "is_feasible_time_window inst customer arrival_time =
     (case time_windows inst customer of
        None \<Rightarrow> True
      | Some (early, late) \<Rightarrow> early \<le> arrival_time \<and> arrival_time \<le> late)"

definition get_waiting_time :: "VRPInstance \<Rightarrow> int \<Rightarrow> real \<Rightarrow> real" where
  "get_waiting_time inst customer arrival_time =
     (case time_windows inst customer of
        None \<Rightarrow> 0
      | Some (early, late) \<Rightarrow> max 0 (early - arrival_time))"

text \<open>\<open>d.get(k, 0)\<close> on the demand and service-time dictionaries.\<close>

definition demand_of :: "VRPInstance \<Rightarrow> int \<Rightarrow> int" where
  "demand_of inst c = (case demands inst c of None \<Rightarrow> 0 | Some d \<Rightarrow> d)"

definition service_time_of :: "VRPInstance \<Rightarrow> int \<Rightarrow> real" where
  "service_time_of inst c = (case service_times inst c of None \<Rightarrow> 0 | Some t \<Rightarrow> t)"

section \<open>solution.py: Solution\<close>

text \<open>The field \<open>instance\<close> is named \<open>sol_instance\<close> here.\<close>

record Solution =
  sol_instance :: "VRPInstance option"
  routes :: "int list list"
  total_cost :: real
  total_distance :: real
  total_time :: real
  feasible :: bool
  violations :: "string list"
  vehicle_loads :: "int list"
  route_distances :: "real list"
  route_times :: "real list"

text \<open>\<open>Solution(instance)\<close>: the constructor.\<close>

definition new_solution :: "VRPInstance option \<Rightarrow> Solution" where
  "new_solution inst =
     \<lparr> sol_instance = inst, routes = [], total_cost = 0, total_distance = 0, total_time = 0,
       feasible = True, violations = [], vehicle_loads = [], route_distances = [],
       route_times = [] \<rparr>"

text \<open>
  \<open>add_route\<close> reads \<open>self.instance.depot\<close> only for a non-empty route; on a solution
  without instance that read raises AttributeError, which the modelled callers never
  reach (they all attach an instance), so the depot is passed in.
\<close>

definition normalize_route :: "int \<Rightarrow> int list \<Rightarrow> int list" where
  "normalize_route dep route =
     (let r1 = (if route \<noteq> [] \<and> hd route \<noteq> dep then dep # route else route);
          r2 = (if r1 \<noteq> [] \<and> last r1 \<noteq> dep then r1 @ [dep] else r1)
      in r2)"

definition add_route :: "int \<Rightarrow> int list \<Rightarrow> Solution \<Rightarrow> Solution" where
  "add_route dep route s = s\<lparr>routes := routes s @ [normalize_route dep route]\<rparr>"

text \<open>
  The loop of \<open>_calculate_route_metrics\<close> over \<open>i in range(len(route) - 1)\<close>, with the
  accumulators \<open>(distance, current_time, load)\<close>; the list argument is \<open>route[i:]\<close>.
\<close>

fun route_metrics_loop ::
  "VRPInstance \<Rightarrow> int list \<Rightarrow> real \<times> real \<times> int \<Rightarrow> error + (real \<times> real \<times> int)" where
  "route_metrics_loop inst (from_node # to_node # rest) (distance, current_time, load) =
     (case get_distance inst from_node to_node 0 of
        Inl e \<Rightarrow> Inl e
      | Inr travel_distance \<Rightarrow>
          (let distance1 = distance + travel_distance;
               time1 = current_time + travel_distance
           in if to_node \<noteq> depot inst then
                (let time2 = time1 + get_waiting_time inst to_node time1;
                     time3 = time2 + service_time_of inst to_node
                 in route_metrics_loop inst (to_node # rest)
                      (distance1, time3, load + demand_of inst to_node))
              else route_metrics_loop inst (to_node # rest) (distance1, time1, load)))"
| "route_metrics_loop inst route acc = Inr acc"

text \<open>\<open>_calculate_route_metrics\<close> returns \<open>(cost, distance, time, load)\<close>.\<close>

definition calculate_route_metrics ::
  "VRPInstance \<Rightarrow> int list \<Rightarrow> error + (real \<times> real \<times> real \<times> int)" where
  "calculate_route_metrics inst route =
     (if length route < 2 then Inr (0, 0, 0, 0)
      else (case route_metrics_loop inst route (0, 0, 0) of
              Inl e \<Rightarrow> Inl e
            | Inr (distance, current_time, load) \<Rightarrow> Inr (distance, distance, current_time, load)))"

text \<open>
  The loop of \<open>calculate_cost\<close> over the routes.  The accumulator holds the three totals
  and the three per-route lists that the method rebuilds.
\<close>

fun cost_loop ::
  "VRPInstance \<Rightarrow> int list list \<Rightarrow> real \<times> real \<times> real \<times> real list \<times> real list \<times> int list \<Rightarrow>
   error + (real \<times> real \<times> real \<times> real list \<times> real list \<times> int list)" where
  "cost_loop inst [] acc = Inr acc"
| "cost_loop inst (route # rest) (tc, td, tt, rds, rts, vls) =
     (case calculate_route_metrics inst route of
        Inl e \<Rightarrow> Inl e
      | Inr (route_cost, route_distance, route_time, route_load) \<Rightarrow>
          cost_loop inst rest
            (tc + route_cost, td + route_distance, tt + route_time,
             rds @ [route_distance], rts @ [route_time], vls @ [route_load]))"

text \<open>
  \<open>calculate_cost\<close> returns the total cost and leaves the solution updated.  An exception
  of \<open>get_distance\<close> propagates to the caller.
\<close>

definition calculate_cost :: "Solution \<Rightarrow> error + (real \<times> Solution)" where
  "calculate_cost s =
     (case sol_instance s of
        None \<Rightarrow> Inr (0, s)
      | Some inst \<Rightarrow>
          (case cost_loop inst (routes s) (0, 0, 0, [], [], []) of
             Inl e \<Rightarrow> Inl e
           | Inr (tc, td, tt, rds, rts, vls) \<Rightarrow>
               Inr (tc, s\<lparr> total_cost := tc, total_distance := td, total_time := tt,
                           route_distances := rds, route_times := rts,
                           vehicle_loads := vls \<rparr>)))"

text \<open>
  \<open>copy\<close> is a deep copy: in this value model, where a solution is its contents, the
  copy is the solution itself.  The store model of the last section shows that the
  neighbourhood operators respect this.
\<close>

definition copy :: "Solution \<Rightarrow> Solution" where
  "copy s = s"

section \<open>algorithms/construction\_heuristics.py: GreedyConstruction\<close>

text \<open>
  \<open>unvisited\<close> is a Python set.  It is modelled as the list of its elements in the
  set's iteration order, without repetition; removing an element keeps the order of the
  others.  \<open>set.remove\<close> raises KeyError on an element that is not in the set.
\<close>

definition set_remove :: "int \<Rightarrow> int list \<Rightarrow> error + int list" where
  "set_remove x unvisited = (if x \<in> set unvisited then Inr (remove1 x unvisited) else Inl KeyError)"

text \<open>
  The \<open>for customer in unvisited\<close> loop of \<open>_build_route\<close>, which looks for the nearest
  feasible customer.  \<open>best\<close> holds \<open>(best_customer, best_distance)\<close>; \<open>None\<close> is the
  initial state \<open>best_customer = None\<close>, \<open>best_distance = float('inf')\<close>, below which
  every real distance lies.
\<close>

fun find_best ::
  "VRPInstance \<Rightarrow> int \<Rightarrow> int \<Rightarrow> real \<Rightarrow> int \<Rightarrow> int list \<Rightarrow> (int \<times> real) option \<Rightarrow>
   error + (int \<times> real) option" where
  "find_best inst current_node current_load current_time vehicle_capacity [] best = Inr best"
| "find_best inst current_node current_load current_time vehicle_capacity (customer # rest) best =
     (let demand = demand_of inst customer
      in if current_load + demand > vehicle_capacity then
           find_best inst current_node current_load current_time vehicle_capacity rest best
         else
           (case get_distance inst current_node customer 0 of
              Inl e \<Rightarrow> Inl e
            | Inr travel_time \<Rightarrow>
                (let arrival_time = current_time + travel_time
                 in if \<not> is_feasible_time_window inst customer arrival_time
                       \<and> get_waiting_time inst customer arrival_time > 100 then
                      find_best inst current_node current_load current_time vehicle_capacity rest best
                    else
                      (case get_distance inst current_node customer 0 of
                         Inl e \<Rightarrow> Inl e
                       | Inr distance \<Rightarrow>
                           (if (case best of None \<Rightarrow> True
                                | Some (best_customer, best_distance) \<Rightarrow> distance < best_distance)
                            then find_best inst current_node current_load current_time
                                   vehicle_capacity rest (Some (customer, distance))
                            else find_best inst current_node current_load current_time
                                   vehicle_capacity rest best)))))"

text \<open>
  The \<open>while unvisited\<close> loop of \<open>_build_route\<close>.  The state is
  \<open>(route, current_node, current_load, current_time, unvisited)\<close>; the loop returns the
  route built so far and what is left of \<open>unvisited\<close>, which the caller shares.
\<close>

function build_route_loop ::
  "VRPInstance \<Rightarrow> int \<Rightarrow> int list \<times> int \<times> int \<times> real \<times> int list \<Rightarrow>
   error + (int list \<times> int list)" where
  "build_route_loop inst vehicle_capacity (route, current_node, current_load, current_time, unvisited) =
     (if unvisited = [] then Inr (route, unvisited)
      else
        (case find_best inst current_node current_load current_time vehicle_capacity unvisited None of
           Inl e \<Rightarrow> Inl e
         | Inr None \<Rightarrow> Inr (route, unvisited)
         | Inr (Some (best_customer, best_distance)) \<Rightarrow>
             (case get_distance inst (last route) best_customer 0 of
                Inl e \<Rightarrow> Inl e
              | Inr travel_time \<Rightarrow>
                  (let time1 = current_time + travel_time;
                       time2 = time1 + get_waiting_time inst best_customer time1;
                       time3 = time2 + service_time_of inst best_customer
                   in (case set_remove best_customer unvisited of
                         Inl e \<Rightarrow> Inl e
                       | Inr unvisited1 \<Rightarrow>
                           build_route_loop inst vehicle_capacity
                             (route @ [best_customer], best_customer,
                              current_load + demand_of inst best_customer, time3, unvisited1))))))"
  by pat_completeness auto
termination
  by (relation "measure (\<lambda>(inst, cap, route, node, load, t, unvisited). length unvisited)")
     (auto simp: set_remove_def length_remove1 split: if_splits)

text \<open>\<open>_build_route(unvisited, vehicle_id)\<close> returns the route and leaves \<open>unvisited\<close> updated.\<close>

definition build_route :: "VRPInstance \<Rightarrow> int list \<Rightarrow> nat \<Rightarrow> error + (int list \<times> int list)" where
  "build_route inst unvisited vehicle_id =
     (let vehicle_capacity =
            (if vehicle_id < length (vehicle_capacities inst)
             then vehicle_capacities inst ! vehicle_id else capacity inst)
      in (case build_route_loop inst vehicle_capacity ([depot inst], depot inst, 0, 0, unvisited) of
            Inl e \<Rightarrow> Inl e
          | Inr (route, unvisited1) \<Rightarrow>
              (let route1 = (if length route > 1 then route @ [depot inst] else route)
               in Inr (if length route1 > 2 then route1 else [], unvisited1))))"

text \<open>\<open>for customer in route: if customer in unvisited: unvisited.remove(customer)\<close>\<close>

definition remove_visited :: "int list \<Rightarrow> int list \<Rightarrow> int list" where
  "remove_visited route unvisited =
     fold (\<lambda>customer u. if customer \<in> set u then remove1 customer u else u) route unvisited"

text \<open>The first loop of \<open>construct\<close>: one route for each configured vehicle.\<close>

function construct_vehicles ::
  "VRPInstance \<Rightarrow> Solution \<times> int list \<times> nat \<Rightarrow> error + (Solution \<times> int list)" where
  "construct_vehicles inst (solution, unvisited, vehicle_id) =
     (if unvisited \<noteq> [] \<and> int vehicle_id < vehicle_count inst then
        (case build_route inst unvisited vehicle_id of
           Inl e \<Rightarrow> Inl e
         | Inr (route, unvisited1) \<Rightarrow>
             (if route \<noteq> [] then
                construct_vehicles inst
                  (add_route (depot inst) route solution, remove_visited route unvisited1,
                   vehicle_id + 1)
              else construct_vehicles inst (solution, unvisited1, vehicle_id + 1)))
      else Inr (solution, unvisited))"
  by pat_completeness auto
termination
  by (relation "measure (\<lambda>(inst, solution, unvisited, vehicle_id).
                   nat (vehicle_count inst - int vehicle_id))") auto

text \<open>
  Each customer appended to the route leaves \<open>unvisited\<close>; the second loop of
  \<open>construct\<close> terminates because of that.
\<close>

lemma set_remove_mset:
  "set_remove c u = Inr u1 \<Longrightarrow> mset u = add_mset c (mset u1)"
  by (auto simp: set_remove_def split: if_splits)

lemma set_remove_length:
  "set_remove c u = Inr u1 \<Longrightarrow> Suc (length u1) = length u"
  by (drule set_remove_mset) (metis size_add_mset size_mset)

lemma build_route_loop_appends:
  "build_route_loop inst cap (route, node, load, t, u) = Inr (route', u') \<Longrightarrow>
   \<exists>xs. route' = route @ xs \<and> mset u = mset xs + mset u'"
proof (induction inst cap "(route, node, load, t, u)" arbitrary: route node load t u
       rule: build_route_loop.induct)
  case (1 inst cap route node load t u)
  show ?case
  proof (cases "u = []")
    case True
    with "1.prems" show ?thesis by simp
  next
    case False
    show ?thesis
    proof (cases "find_best inst node load t cap u None")
      case (Inl e)
      with "1.prems" False show ?thesis by simp
    next
      case (Inr best)
      show ?thesis
      proof (cases best)
        case None
        with "1.prems" False Inr show ?thesis by simp
      next
        case (Some p)
        obtain c d where p: "p = (c, d)" by (cases p)
        show ?thesis
        proof (cases "get_distance inst (last route) c 0")
          case (Inl e)
          with "1.prems" False Inr Some p show ?thesis by simp
        next
          case gd: (Inr tt)
          show ?thesis
          proof (cases "set_remove c u")
            case (Inl e)
            with "1.prems" False Inr Some p gd show ?thesis by (simp add: Let_def)
          next
            case sr: (Inr u1)
            from "1.prems" False Inr Some p gd sr
            have "build_route_loop inst cap (route @ [c], c, load + demand_of inst c,
                    t + tt + get_waiting_time inst c (t + tt) + service_time_of inst c, u1)
                  = Inr (route', u')"
              by (simp add: Let_def)
            from "1.hyps"[OF False Inr Some p[symmetric] gd refl refl refl sr this]
            obtain xs where "route' = (route @ [c]) @ xs" "mset u1 = mset xs + mset u'"
              by blast
            with set_remove_mset[OF sr] have "route' = route @ (c # xs)"
              "mset u = mset (c # xs) + mset u'" by simp_all
            then show ?thesis by blast
          qed
        qed
      qed
    qed
  qed
qed

lemma build_route_shape:
  assumes "build_route inst u v = Inr (route, u1)"
  shows "(route = [] \<and> mset u1 = mset u) \<or>
         (\<exists>xs. xs \<noteq> [] \<and> route = depot inst # xs @ [depot inst] \<and> mset u = mset xs + mset u1)"
proof -
  define cap where "cap = (if v < length (vehicle_capacities inst)
             then vehicle_capacities inst ! v else capacity inst)"
  from assms obtain r where
    loop: "build_route_loop inst cap ([depot inst], depot inst, 0, 0, u) = Inr (r, u1)"
    and route: "route = (let route1 = (if length r > 1 then r @ [depot inst] else r)
                         in if length route1 > 2 then route1 else [])"
    by (auto simp: build_route_def cap_def Let_def split: sum.splits)
  from build_route_loop_appends[OF loop] obtain xs where
    xs: "r = [depot inst] @ xs" "mset u = mset xs + mset u1" by blast
  show ?thesis
  proof (cases "xs = []")
    case True
    with xs route show ?thesis by simp
  next
    case False
    with xs route show ?thesis by (cases xs) auto
  qed
qed

lemma remove_visited_length: "length (remove_visited route u) \<le> length u"
  unfolding remove_visited_def
proof (induction route arbitrary: u)
  case Nil
  show ?case by simp
next
  case (Cons c route)
  have "length (if c \<in> set u then remove1 c u else u) \<le> length u"
    by (simp add: length_remove1)
  with Cons[of "if c \<in> set u then remove1 c u else u"] show ?case
    by simp
qed

lemma build_route_decreases:
  assumes "build_route inst u v = Inr (route, u1)" and "route \<noteq> []"
  shows "length (remove_visited route u1) < length u"
proof -
  from build_route_shape[OF assms(1)] assms(2) obtain xs where
    "xs \<noteq> []" "mset u = mset xs + mset u1" by blast
  then have "length u = length xs + length u1" "length xs > 0"
    by (metis size_mset size_union, simp)
  with remove_visited_length[of route u1] show ?thesis by linarith
qed

text \<open>
  The second loop of \<open>construct\<close>: further routes while customers remain, and a forced
  single-customer route when \<open>_build_route\<close> returns no route.  \<open>remaining[0]\<close> is the
  first element in the iteration order of the set.
\<close>

function construct_extra :: "VRPInstance \<Rightarrow> Solution \<times> int list \<Rightarrow> error + (Solution \<times> int list)" where
  "construct_extra inst (solution, unvisited) =
     (if unvisited \<noteq> [] then
        (case build_route inst unvisited (length (routes solution)) of
           Inl e \<Rightarrow> Inl e
         | Inr (route, unvisited1) \<Rightarrow>
             (if route \<noteq> [] then
                construct_extra inst
                  (add_route (depot inst) route solution, remove_visited route unvisited1)
              else
                (case unvisited1 of
                   [] \<Rightarrow> Inl IndexError
                 | first # remaining \<Rightarrow>
                     (case set_remove first unvisited1 of
                        Inl e \<Rightarrow> Inl e
                      | Inr unvisited2 \<Rightarrow>
                          construct_extra inst
                            (add_route (depot inst) ([depot inst] @ [first] @ [depot inst]) solution,
                             unvisited2)))))
      else Inr (solution, unvisited))"
  by pat_completeness auto
termination
proof (relation "measure (\<lambda>(inst, solution, unvisited). length unvisited)", goal_cases)
  case 1
  show ?case by simp
next
  case (2 inst solution unvisited x2 route unvisited1)
  then show ?case using build_route_decreases by simp
next
  case (3 inst solution unvisited x2 route unvisited1 first remaining x2a)
  from 3(2,3,4) have "mset unvisited1 = mset unvisited"
    using build_route_shape by blast
  then have "length unvisited1 = length unvisited" by (metis size_mset)
  moreover from 3(6) have "length x2a < length unvisited1"
    using set_remove_length by fastforce
  ultimately show ?case by simp
qed

text \<open>
  \<open>construct\<close>.  \<open>unvisited0\<close> is \<open>set(self.instance.demands.keys()) - {depot}\<close> in the
  iteration order of that set.
\<close>

definition unvisited_order :: "VRPInstance \<Rightarrow> int list \<Rightarrow> bool" where
  "unvisited_order inst unvisited0 \<longleftrightarrow>
     distinct unvisited0 \<and> set unvisited0 = dom (demands inst) - {depot inst}"

definition construct :: "VRPInstance \<Rightarrow> int list \<Rightarrow> error + Solution" where
  "construct inst unvisited0 =
     (case construct_vehicles inst (new_solution (Some inst), unvisited0, 0) of
        Inl e \<Rightarrow> Inl e
      | Inr (solution1, unvisited1) \<Rightarrow>
          (case construct_extra inst (solution1, unvisited1) of
             Inl e \<Rightarrow> Inl e
           | Inr (solution2, unvisited2) \<Rightarrow>
               (case calculate_cost solution2 of
                  Inl e \<Rightarrow> Inl e
                | Inr (cost, solution3) \<Rightarrow> Inr solution3)))"

section \<open>The random source\<close>

text \<open>
  The code draws from Python's global \<open>random\<close> module.  Each draw is modelled by an
  arbitrary natural number \<open>r\<close> that is reduced to the range of the call, so that every
  outcome of the call is the image of some \<open>r\<close>; a run is determined by the numbers it
  is given, and a theorem for all of them is a theorem for every run.

  \<open>random.randint(a, b)\<close>, for \<open>a \<le> b\<close>, which holds at every call of the modelled code.
\<close>

definition randint :: "nat \<Rightarrow> nat \<Rightarrow> nat \<Rightarrow> nat" where
  "randint a b r = a + r mod (b - a + 1)"

text \<open>
  \<open>random.sample(population, k)\<close>, for \<open>k \<le> len(population)\<close>: \<open>k\<close> elements at distinct
  positions, in the order drawn.  \<open>rand 0\<close>, \<open>rand 1\<close>, ... are the draws.
\<close>

fun random_sample :: "(nat \<Rightarrow> nat) \<Rightarrow> 'a list \<Rightarrow> nat \<Rightarrow> 'a list" where
  "random_sample rand population 0 = []"
| "random_sample rand population (Suc k) =
     (if population = [] then []
      else (let i = rand 0 mod length population
            in population ! i #
               random_sample (\<lambda>n. rand (Suc n)) (take i population @ drop (Suc i) population) k))"

section \<open>Lists\<close>

text \<open>\<open>enumerate(xs)\<close>, \<open>xs[a:b]\<close> for \<open>a \<le> b\<close>, \<open>xs.pop(i)\<close> and \<open>xs.insert(i, x)\<close>.\<close>

definition enumerate_list :: "'a list \<Rightarrow> (nat \<times> 'a) list" where
  "enumerate_list xs = zip [0..<length xs] xs"

definition slice :: "'a list \<Rightarrow> nat \<Rightarrow> nat \<Rightarrow> 'a list" where
  "slice xs a b = take (b - a) (drop a xs)"

definition list_pop :: "'a list \<Rightarrow> nat \<Rightarrow> 'a list" where
  "list_pop xs i = take i xs @ drop (Suc i) xs"

definition list_insert :: "'a list \<Rightarrow> nat \<Rightarrow> 'a \<Rightarrow> 'a list" where
  "list_insert xs i x = take i xs @ x # drop i xs"

text \<open>
  The list \<open>all_customers\<close> that \<open>_swap_customers\<close> and \<open>_generate_swap_moves\<close> build:
  \<open>(route_idx, pos, customer)\<close> for every node other than the depot.
\<close>

definition all_customers :: "int \<Rightarrow> int list list \<Rightarrow> (nat \<times> nat \<times> int) list" where
  "all_customers dep rs =
     concat (map (\<lambda>(route_idx, route).
                    map (\<lambda>(pos, customer). (route_idx, pos, customer))
                      (filter (\<lambda>(pos, customer). customer \<noteq> dep) (enumerate_list route)))
                 (enumerate_list rs))"

text \<open>\<open>routes[route_idx][pos] = customer\<close>\<close>

definition set_item :: "int list list \<Rightarrow> nat \<Rightarrow> nat \<Rightarrow> int \<Rightarrow> int list list" where
  "set_item rs route_idx pos customer = rs[route_idx := (rs ! route_idx)[pos := customer]]"

text \<open>\<open>route[:i] + route[i:j+1][::-1] + route[j+1:]\<close>\<close>

definition two_opt_route :: "int list \<Rightarrow> nat \<Rightarrow> nat \<Rightarrow> int list" where
  "two_opt_route route i j = take i route @ rev (slice route i (j + 1)) @ drop (j + 1) route"

section \<open>algorithms/simulated\_annealing.py: SimulatedAnnealing\<close>

text \<open>
  The statistics dictionary, without the wall-clock entry \<open>solve_time\<close>.
\<close>

record sa_stats =
  iterations :: nat
  accepted_moves :: nat
  improving_moves :: nat
  temperature_reductions :: nat
  best_cost_history :: "real list"
  current_cost_history :: "real list"
  final_temperature :: "real option"

record SimulatedAnnealing =
  sa_instance :: VRPInstance
  initial_temp :: real
  final_temp :: real
  cooling_rate :: real
  sa_max_iterations :: int
  max_iterations_per_temp :: int
  sa_stats :: sa_stats

text \<open>\<open>SimulatedAnnealing(instance, ...)\<close> with the default arguments of \<open>__init__\<close>.\<close>

definition new_sa_stats :: sa_stats where
  "new_sa_stats =
     \<lparr> iterations = 0, accepted_moves = 0, improving_moves = 0, temperature_reductions = 0,
       best_cost_history = [], current_cost_history = [], final_temperature = None \<rparr>"

definition new_simulated_annealing :: "VRPInstance \<Rightarrow> SimulatedAnnealing" where
  "new_simulated_annealing inst =
     \<lparr> sa_instance = inst, initial_temp = 1000, final_temp = 1, cooling_rate = 95 / 100,
       sa_max_iterations = 10000, max_iterations_per_temp = 100, sa_stats = new_sa_stats \<rparr>"

subsection \<open>The neighbourhood operators\<close>

text \<open>
  Each operator changes the routes of the solution it is given, which is the copy made by
  \<open>_generate_neighbor\<close>.  \<open>dep\<close> is \<open>self.instance.depot\<close> and \<open>rand\<close> the draws.
\<close>

definition swap_customers :: "int \<Rightarrow> (nat \<Rightarrow> nat) \<Rightarrow> Solution \<Rightarrow> Solution" where
  "swap_customers dep rand solution =
     (if length (routes solution) < 1 then solution
      else
        (let customers = all_customers dep (routes solution)
         in if length customers < 2 then solution
            else
              (case random_sample rand customers 2 of
                 [(route1_idx, pos1, cust1), (route2_idx, pos2, cust2)] \<Rightarrow>
                   solution\<lparr>routes :=
                     set_item (set_item (routes solution) route1_idx pos1 cust2)
                       route2_idx pos2 cust1\<rparr>
               | _ \<Rightarrow> solution)))"

definition relocate_customer :: "int \<Rightarrow> (nat \<Rightarrow> nat) \<Rightarrow> Solution \<Rightarrow> Solution" where
  "relocate_customer dep rand solution =
     (let rs = routes solution
      in if length rs < 1 then solution
         else
           (let source_route_idx = randint 0 (length rs - 1) (rand 0);
                source_route = rs ! source_route_idx;
                customer_positions =
                  map fst (filter (\<lambda>(i, c). c \<noteq> dep) (enumerate_list source_route))
            in if customer_positions = [] then solution
               else
                 (let source_pos = customer_positions ! (rand 1 mod length customer_positions);
                      customer = source_route ! source_pos;
                      rs1 = rs[source_route_idx := list_pop source_route source_pos];
                      target_route_idx = randint 0 (length rs1 - 1) (rand 2);
                      target_route = rs1 ! target_route_idx;
                      target_pos =
                        (if length target_route \<le> 2 then 1
                         else randint 1 (length target_route - 1) (rand 3))
                  in solution\<lparr>routes :=
                       rs1[target_route_idx := list_insert target_route target_pos customer]\<rparr>)))"

definition two_opt :: "(nat \<Rightarrow> nat) \<Rightarrow> Solution \<Rightarrow> Solution" where
  "two_opt rand solution =
     (let rs = routes solution
      in if rs = [] then solution
         else
           (let route_idx = randint 0 (length rs - 1) (rand 0);
                route = rs ! route_idx
            in if length route < 4 then solution
               else
                 (let i = randint 1 (length route - 3) (rand 1);
                      j = randint (i + 1) (length route - 2) (rand 2)
                  in solution\<lparr>routes := rs[route_idx := two_opt_route route i j]\<rparr>)))"

definition cross_exchange :: "(nat \<Rightarrow> nat) \<Rightarrow> Solution \<Rightarrow> Solution" where
  "cross_exchange rand solution =
     (let rs = routes solution
      in if length rs < 2 then solution
         else
           (case random_sample rand [0..<length rs] 2 of
              [route1_idx, route2_idx] \<Rightarrow>
                (let route1 = rs ! route1_idx;
                     route2 = rs ! route2_idx
                 in if length route1 \<le> 2 \<or> length route2 \<le> 2 then solution
                    else
                      (let start1 = randint 1 (length route1 - 2) (rand 2);
                           end1 = randint start1 (length route1 - 2) (rand 3);
                           segment1 = slice route1 start1 (end1 + 1);
                           start2 = randint 1 (length route2 - 2) (rand 4);
                           end2 = randint start2 (length route2 - 2) (rand 5);
                           segment2 = slice route2 start2 (end2 + 1);
                           new_route1 = take start1 route1 @ segment2 @ drop (end1 + 1) route1;
                           new_route2 = take start2 route2 @ segment1 @ drop (end2 + 1) route2
                       in solution\<lparr>routes :=
                            (rs[route1_idx := new_route1])[route2_idx := new_route2]\<rparr>))
            | _ \<Rightarrow> solution))"

text \<open>
  What one inner iteration draws: the operator that \<open>random.choices\<close> picks (each of the
  four has a positive weight), the integers for the operator, and the value of
  \<open>random.random()\<close>.
\<close>

datatype operator = OpSwap | OpRelocate | OpTwoOpt | OpCrossExchange

record draws =
  drawn_operator :: operator
  drawn_ints :: "nat \<Rightarrow> nat"
  drawn_uniform :: real

definition generate_neighbor :: "int \<Rightarrow> draws \<Rightarrow> Solution \<Rightarrow> Solution" where
  "generate_neighbor dep d solution =
     (let neighbor = copy solution
      in (case drawn_operator d of
            OpSwap \<Rightarrow> swap_customers dep (drawn_ints d) neighbor
          | OpRelocate \<Rightarrow> relocate_customer dep (drawn_ints d) neighbor
          | OpTwoOpt \<Rightarrow> two_opt (drawn_ints d) neighbor
          | OpCrossExchange \<Rightarrow> cross_exchange (drawn_ints d) neighbor))"

subsection \<open>The annealing loop\<close>

text \<open>
  \<open>random.random() < math.exp(-delta / temperature)\<close>.  The division raises
  ZeroDivisionError at temperature 0, and \<open>math.exp\<close> raises OverflowError when its
  result is beyond the largest double.
\<close>

definition float_max :: real where
  "float_max = (2 - 1 / 2 ^ 52) * 2 ^ 1023"

definition metropolis :: "real \<Rightarrow> real \<Rightarrow> real \<Rightarrow> error + bool" where
  "metropolis u delta temperature =
     (if temperature = 0 then Inl ZeroDivisionError
      else if exp (- delta / temperature) > float_max then Inl OverflowError
      else Inr (u < exp (- delta / temperature)))"

text \<open>
  The variables of \<open>solve\<close>.  \<open>evaluated\<close> is a history variable that the code does not
  have: the costs of the neighbours evaluated so far, in order.  Nothing reads it.
\<close>

record sa_state =
  current_solution :: Solution
  best_solution :: Solution
  temperature :: real
  iteration :: nat
  run_stats :: sa_stats
  evaluated :: "real list"

text \<open>The body of the inner \<open>for\<close> loop, up to \<open>iteration += 1\<close>.\<close>

definition sa_step :: "SimulatedAnnealing \<Rightarrow> draws \<Rightarrow> sa_state \<Rightarrow> error + sa_state" where
  "sa_step sa d st =
     (case calculate_cost
             (generate_neighbor (depot (sa_instance sa)) d (current_solution st)) of
        Inl e \<Rightarrow> Inl e
      | Inr (cost, neighbor) \<Rightarrow>
          (let delta = total_cost neighbor - total_cost (current_solution st)
           in (case (if delta < 0 then Inr True
                     else metropolis (drawn_uniform d) delta (temperature st)) of
                 Inl e \<Rightarrow> Inl e
               | Inr accept \<Rightarrow>
                   (let st1 =
                          (if accept then
                             st\<lparr> current_solution := neighbor,
                                 best_solution :=
                                   (if delta < 0
                                       \<and> total_cost neighbor < total_cost (best_solution st)
                                    then copy neighbor else best_solution st),
                                 run_stats := (run_stats st)
                                   \<lparr> accepted_moves := accepted_moves (run_stats st) + 1,
                                     improving_moves :=
                                       (if delta < 0 then improving_moves (run_stats st) + 1
                                        else improving_moves (run_stats st)) \<rparr> \<rparr>
                           else st)
                    in Inr (st1\<lparr> run_stats := (run_stats st1)
                                   \<lparr> current_cost_history :=
                                       current_cost_history (run_stats st1)
                                         @ [total_cost (current_solution st1)],
                                     best_cost_history :=
                                       best_cost_history (run_stats st1)
                                         @ [total_cost (best_solution st1)] \<rparr>,
                                 iteration := iteration st1 + 1,
                                 evaluated := evaluated st1 @ [total_cost neighbor] \<rparr>)))))"

text \<open>
  \<open>for _ in range(self.max_iterations_per_temp)\<close>, with the \<open>break\<close> at the iteration
  cap.  \<open>oracle k\<close> is what the iteration numbered \<open>k\<close> draws.
\<close>

fun sa_inner ::
  "SimulatedAnnealing \<Rightarrow> (nat \<Rightarrow> draws) \<Rightarrow> nat \<Rightarrow> sa_state \<Rightarrow> error + sa_state" where
  "sa_inner sa oracle 0 st = Inr st"
| "sa_inner sa oracle (Suc n) st =
     (case sa_step sa (oracle (iteration st)) st of
        Inl e \<Rightarrow> Inl e
      | Inr st1 \<Rightarrow>
          (if int (iteration st1) \<ge> sa_max_iterations sa then Inr st1
           else sa_inner sa oracle n st1))"

text \<open>The cooling step after the inner loop.\<close>

definition cool_down :: "SimulatedAnnealing \<Rightarrow> sa_state \<Rightarrow> sa_state" where
  "cool_down sa st =
     st\<lparr> temperature := temperature st * cooling_rate sa,
         run_stats := (run_stats st)
           \<lparr> temperature_reductions := temperature_reductions (run_stats st) + 1 \<rparr> \<rparr>"

text \<open>
  The outer \<open>while\<close> loop.  It need not terminate (no inner iterations and a cooling rate
  of 1, say): \<open>None\<close> is the run that never returns.
\<close>

partial_function (option) sa_outer ::
  "SimulatedAnnealing \<Rightarrow> (nat \<Rightarrow> draws) \<Rightarrow> sa_state \<Rightarrow> (error + sa_state) option" where
  "sa_outer sa oracle st =
     (if temperature st > final_temp sa \<and> int (iteration st) < sa_max_iterations sa then
        (case sa_inner sa oracle (nat (max_iterations_per_temp sa)) st of
           Inl e \<Rightarrow> Some (Inl e)
         | Inr st1 \<Rightarrow> sa_outer sa oracle (cool_down sa st1))
      else Some (Inr st))"

text \<open>\<open>solve\<close> up to the end of the loop: the final values of its variables.\<close>

definition sa_run ::
  "SimulatedAnnealing \<Rightarrow> (nat \<Rightarrow> draws) \<Rightarrow> Solution \<Rightarrow> (error + sa_state) option" where
  "sa_run sa oracle initial_solution =
     (case calculate_cost (copy initial_solution) of
        Inl e \<Rightarrow> Some (Inl e)
      | Inr (cost, current) \<Rightarrow>
          sa_outer sa oracle
            \<lparr> current_solution = current, best_solution = copy current,
              temperature = initial_temp sa, iteration = 0, run_stats = sa_stats sa,
              evaluated = [] \<rparr>)"

text \<open>\<open>solve\<close>: the best solution, and the object with its statistics updated.\<close>

definition sa_solve ::
  "SimulatedAnnealing \<Rightarrow> (nat \<Rightarrow> draws) \<Rightarrow> Solution \<Rightarrow>
   (error + Solution \<times> SimulatedAnnealing) option" where
  "sa_solve sa oracle initial_solution =
     (case sa_run sa oracle initial_solution of
        None \<Rightarrow> None
      | Some (Inl e) \<Rightarrow> Some (Inl e)
      | Some (Inr st) \<Rightarrow>
          Some (Inr (best_solution st,
                     sa\<lparr>sa_stats := (run_stats st)
                          \<lparr> iterations := iteration st,
                            final_temperature := Some (temperature st) \<rparr>\<rparr>)))"

section \<open>algorithms/tabu\_search.py: TabuSearch\<close>

text \<open>
  A move record is a dictionary with the key \<open>type\<close> and the keys of its kind.  It is
  modelled as a tagged value, with the fields in the order of the dictionary literal:
  \<open>SwapMove customer1 customer2 route1 route2\<close>,
  \<open>RelocateMove customer from_route to_route from_pos to_pos\<close>, \<open>TwoOptMove route i j\<close>.
\<close>

datatype move_info =
    SwapMove int int nat nat
  | RelocateMove int nat nat nat nat
  | TwoOptMove nat nat nat

definition move_type :: "move_info \<Rightarrow> string" where
  "move_type m =
     (case m of SwapMove c1 c2 r1 r2 \<Rightarrow> ''swap''
      | RelocateMove c fr to fp tp \<Rightarrow> ''relocate''
      | TwoOptMove r i j \<Rightarrow> ''2opt'')"

text \<open>
  An entry of the tabu list is the tuple \<open>(type, tabu_data, iteration)\<close>.  The dictionary
  \<open>tabu_data\<close> has the keys \<open>customer1, customer2\<close> for a swap,
  \<open>customer, from_route, to_route\<close> for a relocate, and is a copy of the move record for
  a 2-opt move.  The type string is the tag of the data.
\<close>

datatype tabu_data =
    SwapData int int
  | RelocateData int nat nat
  | TwoOptData nat nat nat

definition tabu_type :: "tabu_data \<Rightarrow> string" where
  "tabu_type d =
     (case d of SwapData c1 c2 \<Rightarrow> ''swap''
      | RelocateData c fr to \<Rightarrow> ''relocate''
      | TwoOptData r i j \<Rightarrow> ''2opt'')"

type_synonym tabu_entry = "tabu_data \<times> nat"

record ts_stats =
  ts_iterations :: nat
  ts_best_cost_history :: "real list"
  ts_current_cost_history :: "real list"
  tabu_violations :: nat
  aspiration_acceptances :: nat

record TabuSearch =
  ts_instance :: VRPInstance
  tabu_tenure :: int
  ts_max_iterations :: int
  max_no_improvement :: int
  tabu_list :: "tabu_entry list"
  ts_stats :: ts_stats

definition new_ts_stats :: ts_stats where
  "new_ts_stats =
     \<lparr> ts_iterations = 0, ts_best_cost_history = [], ts_current_cost_history = [],
       tabu_violations = 0, aspiration_acceptances = 0 \<rparr>"

definition new_tabu_search :: "VRPInstance \<Rightarrow> TabuSearch" where
  "new_tabu_search inst =
     \<lparr> ts_instance = inst, tabu_tenure = 20, ts_max_iterations = 1000,
       max_no_improvement = 200, tabu_list = [], ts_stats = new_ts_stats \<rparr>"

subsection \<open>The tabu list\<close>

text \<open>\<open>_is_tabu_move\<close>: the loop over the tabu list.\<close>

fun is_tabu_move :: "tabu_entry list \<Rightarrow> move_info \<Rightarrow> bool" where
  "is_tabu_move [] move = False"
| "is_tabu_move ((tabu_data, tabu_iteration) # rest) move =
     (if tabu_type tabu_data \<noteq> move_type move then is_tabu_move rest move
      else
        (case (move, tabu_data) of
           (SwapMove customer1 customer2 route1 route2, SwapData tabu_customer1 tabu_customer2) \<Rightarrow>
             (if (tabu_customer1 = customer1 \<and> tabu_customer2 = customer2)
                 \<or> (tabu_customer1 = customer2 \<and> tabu_customer2 = customer1)
              then True else is_tabu_move rest move)
         | (RelocateMove customer from_route to_route from_pos to_pos,
            RelocateData tabu_customer tabu_from_route tabu_to_route) \<Rightarrow>
             (if tabu_customer = customer \<and> tabu_from_route = to_route
                 \<and> tabu_to_route = from_route
              then True else is_tabu_move rest move)
         | _ \<Rightarrow> is_tabu_move rest move))"

text \<open>
  \<open>_update_tabu_list(move_info, iteration)\<close>: the reverse move is appended with the number
  of the current iteration, and the entries that are too old are dropped.
\<close>

definition reverse_move :: "move_info \<Rightarrow> tabu_data" where
  "reverse_move move =
     (case move of
        SwapMove customer1 customer2 route1 route2 \<Rightarrow> SwapData customer2 customer1
      | RelocateMove customer from_route to_route from_pos to_pos \<Rightarrow>
          RelocateData customer to_route from_route
      | TwoOptMove route i j \<Rightarrow> TwoOptData route i j)"

definition update_tabu_list :: "int \<Rightarrow> move_info \<Rightarrow> nat \<Rightarrow> tabu_entry list \<Rightarrow> tabu_entry list" where
  "update_tabu_list tenure move iteration_now entries =
     filter (\<lambda>(d, i). int iteration_now - int i < tenure)
       (entries @ [(reverse_move move, iteration_now)])"

subsection \<open>The neighbourhood\<close>

text \<open>
  \<open>_generate_swap_moves\<close>: the loop over the sampled pairs of positions in
  \<open>all_customers\<close>.
\<close>

fun swap_moves_loop ::
  "Solution \<Rightarrow> (nat \<times> nat \<times> int) list \<Rightarrow> (nat \<times> nat) list \<Rightarrow>
   (Solution \<times> move_info) list \<Rightarrow> error + (Solution \<times> move_info) list" where
  "swap_moves_loop solution customers [] moves = Inr moves"
| "swap_moves_loop solution customers ((i, j) # rest) moves =
     (case (customers ! i, customers ! j) of
        ((route1_idx, pos1, cust1), (route2_idx, pos2, cust2)) \<Rightarrow>
          (case calculate_cost
                  ((copy solution)\<lparr>routes :=
                     set_item (set_item (routes (copy solution)) route1_idx pos1 cust2)
                       route2_idx pos2 cust1\<rparr>) of
             Inl e \<Rightarrow> Inl e
           | Inr (cost, neighbor) \<Rightarrow>
               swap_moves_loop solution customers rest
                 (moves @ [(neighbor, SwapMove cust1 cust2 route1_idx route2_idx)])))"

definition generate_swap_moves ::
  "int \<Rightarrow> (nat \<Rightarrow> nat) \<Rightarrow> Solution \<Rightarrow> error + (Solution \<times> move_info) list" where
  "generate_swap_moves dep rand solution =
     (let customers = all_customers dep (routes solution);
          n = length customers;
          max_swaps = min 50 (n * (n - 1) div 2);
          swap_pairs =
            random_sample rand (concat (map (\<lambda>i. map (\<lambda>j. (i, j)) [i + 1..<n]) [0..<n]))
              (min max_swaps (n * (n - 1) div 2))
      in swap_moves_loop solution customers swap_pairs [])"

text \<open>
  \<open>_generate_relocate_moves\<close>: four nested loops, with the list \<open>moves\<close> and the counter
  \<open>move_count\<close> as state.  Innermost, \<open>for target_pos in range(1, len(...))\<close>.
\<close>

definition relocate_neighbor ::
  "Solution \<Rightarrow> nat \<Rightarrow> nat \<Rightarrow> int \<Rightarrow> nat \<Rightarrow> nat \<Rightarrow> error + Solution \<times> move_info" where
  "relocate_neighbor solution route_idx pos customer target_route_idx target_pos =
     (let rs = routes (copy solution);
          rs1 = rs[route_idx := list_pop (rs ! route_idx) pos];
          target_pos1 =
            (if target_route_idx = route_idx \<and> target_pos > pos then target_pos - 1
             else target_pos);
          rs2 = rs1[target_route_idx := list_insert (rs1 ! target_route_idx) target_pos1 customer]
      in (case calculate_cost ((copy solution)\<lparr>routes := rs2\<rparr>) of
            Inl e \<Rightarrow> Inl e
          | Inr (cost, neighbor) \<Rightarrow>
              Inr (neighbor, RelocateMove customer route_idx target_route_idx pos target_pos1)))"

fun relocate_pos_loop ::
  "Solution \<Rightarrow> nat \<Rightarrow> nat \<Rightarrow> int \<Rightarrow> nat \<Rightarrow> nat list \<Rightarrow>
   (Solution \<times> move_info) list \<times> nat \<Rightarrow> error + (Solution \<times> move_info) list \<times> nat" where
  "relocate_pos_loop solution route_idx pos customer target_route_idx [] acc = Inr acc"
| "relocate_pos_loop solution route_idx pos customer target_route_idx (target_pos # rest)
     (moves, move_count) =
     (case relocate_neighbor solution route_idx pos customer target_route_idx target_pos of
        Inl e \<Rightarrow> Inl e
      | Inr move \<Rightarrow>
          (if move_count + 1 \<ge> 30 then Inr (moves @ [move], move_count + 1)
           else relocate_pos_loop solution route_idx pos customer target_route_idx rest
                  (moves @ [move], move_count + 1)))"

text \<open>\<open>for target_route_idx in range(len(solution.routes))\<close>\<close>

fun relocate_target_loop ::
  "Solution \<Rightarrow> nat \<Rightarrow> nat \<Rightarrow> int \<Rightarrow> nat list \<Rightarrow>
   (Solution \<times> move_info) list \<times> nat \<Rightarrow> error + (Solution \<times> move_info) list \<times> nat" where
  "relocate_target_loop solution route_idx pos customer [] acc = Inr acc"
| "relocate_target_loop solution route_idx pos customer (target_route_idx # rest)
     (moves, move_count) =
     (if move_count \<ge> 30 then Inr (moves, move_count)
      else
        (case relocate_pos_loop solution route_idx pos customer target_route_idx
                [1..<length (routes solution ! target_route_idx)] (moves, move_count) of
           Inl e \<Rightarrow> Inl e
         | Inr acc \<Rightarrow> relocate_target_loop solution route_idx pos customer rest acc))"

text \<open>\<open>for pos, customer in enumerate(route)\<close>\<close>

fun relocate_customer_loop ::
  "int \<Rightarrow> Solution \<Rightarrow> nat \<Rightarrow> (nat \<times> int) list \<Rightarrow>
   (Solution \<times> move_info) list \<times> nat \<Rightarrow> error + (Solution \<times> move_info) list \<times> nat" where
  "relocate_customer_loop dep solution route_idx [] acc = Inr acc"
| "relocate_customer_loop dep solution route_idx ((pos, customer) # rest) acc =
     (if customer = dep then relocate_customer_loop dep solution route_idx rest acc
      else
        (case relocate_target_loop solution route_idx pos customer
                [0..<length (routes solution)] acc of
           Inl e \<Rightarrow> Inl e
         | Inr acc1 \<Rightarrow> relocate_customer_loop dep solution route_idx rest acc1))"

text \<open>\<open>for route_idx, route in enumerate(solution.routes)\<close>\<close>

fun relocate_route_loop ::
  "int \<Rightarrow> Solution \<Rightarrow> (nat \<times> int list) list \<Rightarrow>
   (Solution \<times> move_info) list \<times> nat \<Rightarrow> error + (Solution \<times> move_info) list \<times> nat" where
  "relocate_route_loop dep solution [] acc = Inr acc"
| "relocate_route_loop dep solution ((route_idx, route) # rest) (moves, move_count) =
     (if move_count \<ge> 30 then Inr (moves, move_count)
      else
        (case relocate_customer_loop dep solution route_idx (enumerate_list route)
                (moves, move_count) of
           Inl e \<Rightarrow> Inl e
         | Inr acc \<Rightarrow> relocate_route_loop dep solution rest acc))"

definition generate_relocate_moves ::
  "int \<Rightarrow> Solution \<Rightarrow> error + (Solution \<times> move_info) list" where
  "generate_relocate_moves dep solution =
     (case relocate_route_loop dep solution (enumerate_list (routes solution)) ([], 0) of
        Inl e \<Rightarrow> Inl e
      | Inr (moves, move_count) \<Rightarrow> Inr moves)"

text \<open>
  \<open>_generate_2opt_moves\<close>.  The inner loop runs \<open>min(5, len(route) - 3)\<close> times at most;
  the move numbered \<open>move_count\<close> draws \<open>rand (2 * move_count)\<close> for \<open>i\<close> and
  \<open>rand (2 * move_count + 1)\<close> for \<open>j\<close>.
\<close>

fun two_opt_tries_loop ::
  "(nat \<Rightarrow> nat) \<Rightarrow> Solution \<Rightarrow> nat \<Rightarrow> int list \<Rightarrow> nat \<Rightarrow>
   (Solution \<times> move_info) list \<times> nat \<Rightarrow> error + (Solution \<times> move_info) list \<times> nat" where
  "two_opt_tries_loop rand solution route_idx route 0 acc = Inr acc"
| "two_opt_tries_loop rand solution route_idx route (Suc tries) (moves, move_count) =
     (if move_count \<ge> 20 then Inr (moves, move_count)
      else
        (let i = randint 1 (length route - 3) (rand (2 * move_count));
             j = randint (i + 1) (length route - 2) (rand (2 * move_count + 1))
         in (case calculate_cost
                    ((copy solution)\<lparr>routes :=
                       (routes (copy solution))[route_idx := two_opt_route route i j]\<rparr>) of
               Inl e \<Rightarrow> Inl e
             | Inr (cost, neighbor) \<Rightarrow>
                 two_opt_tries_loop rand solution route_idx route tries
                   (moves @ [(neighbor, TwoOptMove route_idx i j)], move_count + 1))))"

fun two_opt_route_loop ::
  "(nat \<Rightarrow> nat) \<Rightarrow> Solution \<Rightarrow> (nat \<times> int list) list \<Rightarrow>
   (Solution \<times> move_info) list \<times> nat \<Rightarrow> error + (Solution \<times> move_info) list \<times> nat" where
  "two_opt_route_loop rand solution [] acc = Inr acc"
| "two_opt_route_loop rand solution ((route_idx, route) # rest) (moves, move_count) =
     (if length route < 4 \<or> move_count \<ge> 20 then
        two_opt_route_loop rand solution rest (moves, move_count)
      else
        (case two_opt_tries_loop rand solution route_idx route (min 5 (length route - 3))
                (moves, move_count) of
           Inl e \<Rightarrow> Inl e
         | Inr acc \<Rightarrow> two_opt_route_loop rand solution rest acc))"

definition generate_2opt_moves ::
  "(nat \<Rightarrow> nat) \<Rightarrow> Solution \<Rightarrow> error + (Solution \<times> move_info) list" where
  "generate_2opt_moves rand solution =
     (case two_opt_route_loop rand solution (enumerate_list (routes solution)) ([], 0) of
        Inl e \<Rightarrow> Inl e
      | Inr (moves, move_count) \<Rightarrow> Inr moves)"

text \<open>What one iteration of the search draws: for the swap sample and for the 2-opt moves.\<close>

record tabu_draws =
  swap_rand :: "nat \<Rightarrow> nat"
  two_opt_rand :: "nat \<Rightarrow> nat"

definition generate_neighborhood ::
  "int \<Rightarrow> tabu_draws \<Rightarrow> Solution \<Rightarrow> error + (Solution \<times> move_info) list" where
  "generate_neighborhood dep d solution =
     (case generate_swap_moves dep (swap_rand d) solution of
        Inl e \<Rightarrow> Inl e
      | Inr swaps \<Rightarrow>
          (case generate_relocate_moves dep solution of
             Inl e \<Rightarrow> Inl e
           | Inr relocates \<Rightarrow>
               (case generate_2opt_moves (two_opt_rand d) solution of
                  Inl e \<Rightarrow> Inl e
                | Inr two_opts \<Rightarrow> Inr (swaps @ relocates @ two_opts))))"

subsection \<open>The selection of a move\<close>

text \<open>
  The loop of \<open>_select_best_move\<close>.  \<open>best\<close> holds
  \<open>(best_neighbor, best_move_info, best_cost)\<close>; \<open>None\<close> is the initial state with
  \<open>best_cost = float('inf')\<close>.
\<close>

fun select_best_move_loop ::
  "tabu_entry list \<Rightarrow> real \<Rightarrow> (Solution \<times> move_info) list \<Rightarrow>
   (Solution \<times> move_info \<times> real) option \<times> ts_stats \<Rightarrow>
   (Solution \<times> move_info \<times> real) option \<times> ts_stats" where
  "select_best_move_loop entries best_known_cost [] acc = acc"
| "select_best_move_loop entries best_known_cost ((neighbor, move) # rest) (best, stats) =
     (let is_tabu = is_tabu_move entries move;
          aspiration = total_cost neighbor < best_known_cost
      in if \<not> is_tabu \<or> aspiration then
           (if (case best of None \<Rightarrow> True
                | Some (best_neighbor, best_move_info, best_cost) \<Rightarrow>
                    total_cost neighbor < best_cost)
            then select_best_move_loop entries best_known_cost rest
                   (Some (neighbor, move, total_cost neighbor),
                    if aspiration \<and> is_tabu
                    then stats\<lparr>aspiration_acceptances := aspiration_acceptances stats + 1\<rparr>
                    else stats)
            else select_best_move_loop entries best_known_cost rest (best, stats))
         else select_best_move_loop entries best_known_cost rest
                (best, stats\<lparr>tabu_violations := tabu_violations stats + 1\<rparr>))"

definition select_best_move ::
  "tabu_entry list \<Rightarrow> ts_stats \<Rightarrow> (Solution \<times> move_info) list \<Rightarrow> real \<Rightarrow>
   (Solution \<times> move_info) option \<times> ts_stats" where
  "select_best_move entries stats neighbors best_known_cost =
     (case select_best_move_loop entries best_known_cost neighbors (None, stats) of
        (None, stats1) \<Rightarrow> (None, stats1)
      | (Some (best_neighbor, best_move_info, best_cost), stats1) \<Rightarrow>
          (Some (best_neighbor, best_move_info), stats1))"

subsection \<open>The search loop\<close>

record ts_state =
  ts_current_solution :: Solution
  ts_best_solution :: Solution
  ts_iteration :: nat
  no_improvement_count :: nat
  ts_tabu_list :: "tabu_entry list"
  ts_run_stats :: ts_stats

text \<open>The \<open>while\<close> loop of \<open>solve\<close>; \<open>oracle k\<close> is what the iteration numbered \<open>k\<close> draws.\<close>

function tabu_loop ::
  "TabuSearch \<Rightarrow> (nat \<Rightarrow> tabu_draws) \<Rightarrow> ts_state \<Rightarrow> error + ts_state" where
  "tabu_loop ts oracle st =
     (if int (ts_iteration st) < ts_max_iterations ts
         \<and> int (no_improvement_count st) < max_no_improvement ts then
        (case generate_neighborhood (depot (ts_instance ts)) (oracle (ts_iteration st))
                (ts_current_solution st) of
           Inl e \<Rightarrow> Inl e
         | Inr neighbors \<Rightarrow>
             (if neighbors = [] then Inr st
              else
                (case select_best_move (ts_tabu_list st) (ts_run_stats st) neighbors
                        (total_cost (ts_best_solution st)) of
                   (None, stats1) \<Rightarrow> Inr (st\<lparr>ts_run_stats := stats1\<rparr>)
                 | (Some (best_neighbor, move), stats1) \<Rightarrow>
                     (case calculate_cost best_neighbor of
                        Inl e \<Rightarrow> Inl e
                      | Inr (cost, current) \<Rightarrow>
                          (let improved = total_cost current < total_cost (ts_best_solution st);
                               best = (if improved then copy current else ts_best_solution st)
                           in tabu_loop ts oracle
                                \<lparr> ts_current_solution = current,
                                  ts_best_solution = best,
                                  ts_iteration = ts_iteration st + 1,
                                  no_improvement_count =
                                    (if improved then 0 else no_improvement_count st + 1),
                                  ts_tabu_list =
                                    update_tabu_list (tabu_tenure ts) move (ts_iteration st)
                                      (ts_tabu_list st),
                                  ts_run_stats = stats1
                                    \<lparr> ts_current_cost_history :=
                                        ts_current_cost_history stats1 @ [total_cost current],
                                      ts_best_cost_history :=
                                        ts_best_cost_history stats1 @ [total_cost best] \<rparr>
                                \<rparr>)))))
      else Inr st)"
  by pat_completeness auto
termination
  by (relation "measure (\<lambda>(ts, oracle, st). nat (ts_max_iterations ts - int (ts_iteration st)))")
     auto

text \<open>\<open>solve\<close> up to the end of the loop: the final values of its variables.\<close>

definition tabu_run ::
  "TabuSearch \<Rightarrow> (nat \<Rightarrow> tabu_draws) \<Rightarrow> Solution \<Rightarrow> error + ts_state" where
  "tabu_run ts oracle initial_solution =
     (case calculate_cost (copy initial_solution) of
        Inl e \<Rightarrow> Inl e
      | Inr (cost, current) \<Rightarrow>
          tabu_loop ts oracle
            \<lparr> ts_current_solution = current, ts_best_solution = copy current,
              ts_iteration = 0, no_improvement_count = 0, ts_tabu_list = tabu_list ts,
              ts_run_stats = ts_stats ts \<rparr>)"

text \<open>\<open>solve\<close>: the best solution, and the object with its tabu list and statistics.\<close>

definition tabu_solve ::
  "TabuSearch \<Rightarrow> (nat \<Rightarrow> tabu_draws) \<Rightarrow> Solution \<Rightarrow> error + Solution \<times> TabuSearch" where
  "tabu_solve ts oracle initial_solution =
     (case tabu_run ts oracle initial_solution of
        Inl e \<Rightarrow> Inl e
      | Inr st \<Rightarrow>
          Inr (ts_best_solution st,
               ts\<lparr> tabu_list := ts_tabu_list st,
                   ts_stats := (ts_run_stats st)\<lparr>ts_iterations := ts_iteration st\<rparr> \<rparr>))"

section \<open>vrp\_solver.py: VRPSolver\<close>

text \<open>
  The keyword arguments of \<open>solve\<close> that the code reads with \<open>kwargs.get\<close>; \<open>None\<close> is an
  argument that was not passed.
\<close>

record kwargs =
  kw_construction :: "string option"
  kw_initial_temp :: "real option"
  kw_final_temp :: "real option"
  kw_cooling_rate :: "real option"
  kw_max_iterations :: "int option"
  kw_max_iterations_per_temp :: "int option"
  kw_tabu_tenure :: "int option"
  kw_max_no_improvement :: "int option"

definition no_kwargs :: kwargs where
  "no_kwargs =
     \<lparr> kw_construction = None, kw_initial_temp = None, kw_final_temp = None,
       kw_cooling_rate = None, kw_max_iterations = None, kw_max_iterations_per_temp = None,
       kw_tabu_tenure = None, kw_max_no_improvement = None \<rparr>"

definition kwargs_get :: "'a option \<Rightarrow> 'a \<Rightarrow> 'a" where
  "kwargs_get v dflt = (case v of None \<Rightarrow> dflt | Some x \<Rightarrow> x)"

text \<open>
  What a call of \<open>solve\<close> depends on besides its arguments: the iteration order of the
  set of unvisited customers, the draws of the two metaheuristics, and
  \<open>SavingsAlgorithm.construct\<close>, which is not modelled and is a parameter here.
\<close>

record environment =
  set_order :: "int list"
  sa_oracle :: "nat \<Rightarrow> draws"
  tabu_oracle :: "nat \<Rightarrow> tabu_draws"
  savings_construct :: "VRPInstance \<Rightarrow> error + Solution"

text \<open>The dictionary \<open>algorithm_stats\<close> that \<open>solve\<close> stores, without the wall-clock entry.\<close>

record algorithm_stats =
  stat_algorithm :: string
  stat_final_cost :: real
  stat_feasible :: bool
  stat_violations :: nat

record VRPSolver =
  vs_instance :: VRPInstance
  vs_best_solution :: "Solution option"
  vs_algorithm_stats :: "algorithm_stats option"

text \<open>\<open>VRPSolver(instance)\<close>\<close>

definition new_solver :: "VRPInstance \<Rightarrow> VRPSolver" where
  "new_solver inst = \<lparr> vs_instance = inst, vs_best_solution = None, vs_algorithm_stats = None \<rparr>"

definition create_initial_solution :: "VRPInstance \<Rightarrow> environment \<Rightarrow> string \<Rightarrow> error + Solution" where
  "create_initial_solution inst env method =
     (if method = ''greedy'' then construct inst (set_order env)
      else if method = ''savings'' then savings_construct env inst
      else construct inst (set_order env))"

definition solve_simulated_annealing ::
  "VRPInstance \<Rightarrow> environment \<Rightarrow> kwargs \<Rightarrow> Solution \<Rightarrow> (error + Solution) option" where
  "solve_simulated_annealing inst env kw initial_solution =
     (case sa_solve
             \<lparr> sa_instance = inst,
               initial_temp = kwargs_get (kw_initial_temp kw) 1000,
               final_temp = kwargs_get (kw_final_temp kw) 1,
               cooling_rate = kwargs_get (kw_cooling_rate kw) (95 / 100),
               sa_max_iterations = kwargs_get (kw_max_iterations kw) 10000,
               max_iterations_per_temp = kwargs_get (kw_max_iterations_per_temp kw) 100,
               sa_stats = new_sa_stats \<rparr>
             (sa_oracle env) initial_solution of
        None \<Rightarrow> None
      | Some (Inl e) \<Rightarrow> Some (Inl e)
      | Some (Inr (solution, sa)) \<Rightarrow> Some (Inr solution))"

definition solve_tabu_search ::
  "VRPInstance \<Rightarrow> environment \<Rightarrow> kwargs \<Rightarrow> Solution \<Rightarrow> error + Solution" where
  "solve_tabu_search inst env kw initial_solution =
     (case tabu_solve
             \<lparr> ts_instance = inst,
               tabu_tenure = kwargs_get (kw_tabu_tenure kw) 20,
               ts_max_iterations = kwargs_get (kw_max_iterations kw) 1000,
               max_no_improvement = kwargs_get (kw_max_no_improvement kw) 200,
               tabu_list = [], ts_stats = new_ts_stats \<rparr>
             (tabu_oracle env) initial_solution of
        Inl e \<Rightarrow> Inl e
      | Inr (solution, ts) \<Rightarrow> Inr solution)"

definition solve_greedy :: "VRPInstance \<Rightarrow> environment \<Rightarrow> error + Solution" where
  "solve_greedy inst env =
     (case construct inst (set_order env) of
        Inl e \<Rightarrow> Inl e
      | Inr solution \<Rightarrow>
          (case calculate_cost solution of Inl e \<Rightarrow> Inl e | Inr (cost, solution1) \<Rightarrow> Inr solution1))"

definition solve_savings :: "VRPInstance \<Rightarrow> environment \<Rightarrow> error + Solution" where
  "solve_savings inst env =
     (case savings_construct env inst of
        Inl e \<Rightarrow> Inl e
      | Inr solution \<Rightarrow>
          (case calculate_cost solution of Inl e \<Rightarrow> Inl e | Inr (cost, solution1) \<Rightarrow> Inr solution1))"

text \<open>
  \<open>solve(algorithm, **kwargs)\<close>.  First the initial solution, for the two metaheuristics
  only; then the selected algorithm, or ValueError for a name that is none of the four;
  then the statistics, which \<open>record_solution\<close> stores.  \<open>None\<close> is a run of the
  annealing loop that never returns.
\<close>

definition record_solution ::
  "VRPSolver \<Rightarrow> string \<Rightarrow> (error + Solution) option \<Rightarrow> (error + Solution \<times> VRPSolver) option" where
  "record_solution solver algorithm result =
     (case result of
        None \<Rightarrow> None
      | Some (Inl e) \<Rightarrow> Some (Inl e)
      | Some (Inr solution) \<Rightarrow>
          Some (Inr (solution,
                     solver\<lparr> vs_algorithm_stats :=
                                Some \<lparr> stat_algorithm = algorithm,
                                       stat_final_cost = total_cost solution,
                                       stat_feasible = feasible solution,
                                       stat_violations = length (violations solution) \<rparr>,
                             vs_best_solution := Some solution \<rparr>)))"

definition solve ::
  "VRPSolver \<Rightarrow> environment \<Rightarrow> string \<Rightarrow> kwargs \<Rightarrow> (error + Solution \<times> VRPSolver) option" where
  "solve solver env algorithm kw =
     (if algorithm = ''simulated_annealing'' \<or> algorithm = ''tabu_search'' then
        (case create_initial_solution (vs_instance solver) env
                (kwargs_get (kw_construction kw) ''greedy'') of
           Inl e \<Rightarrow> Some (Inl e)
         | Inr initial_solution \<Rightarrow>
             record_solution solver algorithm
               (if algorithm = ''simulated_annealing'' then
                  solve_simulated_annealing (vs_instance solver) env kw initial_solution
                else Some (solve_tabu_search (vs_instance solver) env kw initial_solution)))
      else
        record_solution solver algorithm
          (if algorithm = ''greedy'' then Some (solve_greedy (vs_instance solver) env)
           else if algorithm = ''savings'' then Some (solve_savings (vs_instance solver) env)
           else Some (Inl (ValueError (''Unknown algorithm: '' @ algorithm)))))"

section \<open>Copies and in-place updates: the store\<close>

text \<open>
  In the sections above a solution is a value and \<open>copy\<close> is the identity.  The code
  works on objects: \<open>solution.routes\<close> is a list object that holds references to one list
  object per route, \<open>Solution.copy\<close> builds new objects with \<open>copy.deepcopy\<close>, and the
  operators of \<open>SimulatedAnnealing\<close> update the objects of the solution they are given.
  This section models those objects.  A store is the list of the objects allocated so
  far, an address is a position in it, and a new object goes to the end.  Of a Solution
  the store holds the attribute \<open>routes\<close>; the other attributes are numbers, a flag and
  lists that \<open>copy\<close> copies and that no operator reads or writes.

  \<open>None\<close> is the result on a store that is not typed as \<open>List[List[int]]\<close> demands.
\<close>

type_synonym addr = nat

datatype obj = IntList "int list" | RefList "addr list"

type_synonym store = "obj list"

definition ref_list :: "store \<Rightarrow> addr \<Rightarrow> addr list option" where
  "ref_list st a =
     (if a < length st then (case st ! a of RefList refs \<Rightarrow> Some refs | IntList xs \<Rightarrow> None)
      else None)"

definition int_list :: "store \<Rightarrow> addr \<Rightarrow> int list option" where
  "int_list st a =
     (if a < length st then (case st ! a of IntList xs \<Rightarrow> Some xs | RefList refs \<Rightarrow> None)
      else None)"

fun read_all :: "store \<Rightarrow> addr list \<Rightarrow> int list list option" where
  "read_all st [] = Some []"
| "read_all st (a # refs) =
     (case int_list st a of
        None \<Rightarrow> None
      | Some xs \<Rightarrow> (case read_all st refs of None \<Rightarrow> None | Some rs \<Rightarrow> Some (xs # rs)))"

text \<open>The contents of \<open>solution.routes\<close>, for the solution whose list of routes is at \<open>s\<close>.\<close>

definition read_routes :: "store \<Rightarrow> addr \<Rightarrow> int list list option" where
  "read_routes st s = (case ref_list st s of None \<Rightarrow> None | Some refs \<Rightarrow> read_all st refs)"

subsection \<open>copy.deepcopy\<close>

text \<open>
  \<open>copy.deepcopy(self.routes)\<close>: a new outer list, and a new list for every route.  The
  memo of \<open>deepcopy\<close> maps the objects copied so far to their copies, so that a route
  object that occurs twice is copied once.  The integers are shared: they are immutable.
\<close>

fun deepcopy_items ::
  "store \<Rightarrow> (addr \<times> addr) list \<Rightarrow> addr list \<Rightarrow> (store \<times> (addr \<times> addr) list \<times> addr list) option" where
  "deepcopy_items st memo [] = Some (st, memo, [])"
| "deepcopy_items st memo (a # refs) =
     (case map_of memo a of
        Some copied \<Rightarrow>
          (case deepcopy_items st memo refs of
             None \<Rightarrow> None
           | Some (st1, memo1, copies) \<Rightarrow> Some (st1, memo1, copied # copies))
      | None \<Rightarrow>
          (case int_list st a of
             None \<Rightarrow> None
           | Some xs \<Rightarrow>
               (case deepcopy_items (st @ [IntList xs]) ((a, length st) # memo) refs of
                  None \<Rightarrow> None
                | Some (st1, memo1, copies) \<Rightarrow> Some (st1, memo1, length st # copies))))"

text \<open>\<open>Solution.copy\<close>: the address of the routes of the new solution.\<close>

definition copy_store :: "store \<Rightarrow> addr \<Rightarrow> (store \<times> addr) option" where
  "copy_store st s =
     (case ref_list st s of
        None \<Rightarrow> None
      | Some refs \<Rightarrow>
          (case deepcopy_items (st @ [RefList []]) [(s, length st)] refs of
             None \<Rightarrow> None
           | Some (st1, memo1, copies) \<Rightarrow> Some (st1[length st := RefList copies], length st)))"

subsection \<open>Updates in place\<close>

text \<open>
  \<open>solution.routes[route_idx][pos] = customer\<close>, \<open>solution.routes[route_idx].pop(pos)\<close> and
  \<open>solution.routes[route_idx].insert(pos, customer)\<close> change the route object;
  \<open>solution.routes[route_idx] = route\<close> stores a reference to a new list object in the
  outer list.
\<close>

definition update_route ::
  "store \<Rightarrow> addr \<Rightarrow> nat \<Rightarrow> (int list \<Rightarrow> int list) \<Rightarrow> store option" where
  "update_route st s route_idx f =
     (case ref_list st s of
        None \<Rightarrow> None
      | Some refs \<Rightarrow>
          (if route_idx < length refs then
             (case int_list st (refs ! route_idx) of
                None \<Rightarrow> None
              | Some xs \<Rightarrow> Some (st[refs ! route_idx := IntList (f xs)]))
           else None))"

definition assign_route :: "store \<Rightarrow> addr \<Rightarrow> nat \<Rightarrow> int list \<Rightarrow> store option" where
  "assign_route st s route_idx route =
     (case ref_list st s of
        None \<Rightarrow> None
      | Some refs \<Rightarrow>
          (if route_idx < length refs then
             Some ((st @ [IntList route])[s := RefList (refs[route_idx := length st])])
           else None))"

subsection \<open>The operators on the store\<close>

definition swap_customers_store :: "int \<Rightarrow> (nat \<Rightarrow> nat) \<Rightarrow> store \<Rightarrow> addr \<Rightarrow> store option" where
  "swap_customers_store dep rand st s =
     (case read_routes st s of
        None \<Rightarrow> None
      | Some rs \<Rightarrow>
          (if length rs < 1 then Some st
           else
             (let customers = all_customers dep rs
              in if length customers < 2 then Some st
                 else
                   (case random_sample rand customers 2 of
                      [(route1_idx, pos1, cust1), (route2_idx, pos2, cust2)] \<Rightarrow>
                        (case update_route st s route1_idx (\<lambda>xs. xs[pos1 := cust2]) of
                           None \<Rightarrow> None
                         | Some st1 \<Rightarrow> update_route st1 s route2_idx (\<lambda>xs. xs[pos2 := cust1]))
                    | _ \<Rightarrow> Some st))))"

definition relocate_customer_store :: "int \<Rightarrow> (nat \<Rightarrow> nat) \<Rightarrow> store \<Rightarrow> addr \<Rightarrow> store option" where
  "relocate_customer_store dep rand st s =
     (case read_routes st s of
        None \<Rightarrow> None
      | Some rs \<Rightarrow>
          (if length rs < 1 then Some st
           else
             (let source_route_idx = randint 0 (length rs - 1) (rand 0);
                  source_route = rs ! source_route_idx;
                  customer_positions =
                    map fst (filter (\<lambda>(i, c). c \<noteq> dep) (enumerate_list source_route))
              in if customer_positions = [] then Some st
                 else
                   (let source_pos = customer_positions ! (rand 1 mod length customer_positions);
                        customer = source_route ! source_pos
                    in (case update_route st s source_route_idx (\<lambda>xs. list_pop xs source_pos) of
                          None \<Rightarrow> None
                        | Some st1 \<Rightarrow>
                            (case read_routes st1 s of
                               None \<Rightarrow> None
                             | Some rs1 \<Rightarrow>
                                 (let target_route_idx = randint 0 (length rs1 - 1) (rand 2);
                                      target_route = rs1 ! target_route_idx;
                                      target_pos =
                                        (if length target_route \<le> 2 then 1
                                         else randint 1 (length target_route - 1) (rand 3))
                                  in update_route st1 s target_route_idx
                                       (\<lambda>xs. list_insert xs target_pos customer))))))))"

definition two_opt_store :: "(nat \<Rightarrow> nat) \<Rightarrow> store \<Rightarrow> addr \<Rightarrow> store option" where
  "two_opt_store rand st s =
     (case read_routes st s of
        None \<Rightarrow> None
      | Some rs \<Rightarrow>
          (if rs = [] then Some st
           else
             (let route_idx = randint 0 (length rs - 1) (rand 0);
                  route = rs ! route_idx
              in if length route < 4 then Some st
                 else
                   (let i = randint 1 (length route - 3) (rand 1);
                        j = randint (i + 1) (length route - 2) (rand 2)
                    in assign_route st s route_idx (two_opt_route route i j)))))"

definition cross_exchange_store :: "(nat \<Rightarrow> nat) \<Rightarrow> store \<Rightarrow> addr \<Rightarrow> store option" where
  "cross_exchange_store rand st s =
     (case read_routes st s of
        None \<Rightarrow> None
      | Some rs \<Rightarrow>
          (if length rs < 2 then Some st
           else
             (case random_sample rand [0..<length rs] 2 of
                [route1_idx, route2_idx] \<Rightarrow>
                  (let route1 = rs ! route1_idx;
                       route2 = rs ! route2_idx
                   in if length route1 \<le> 2 \<or> length route2 \<le> 2 then Some st
                      else
                        (let start1 = randint 1 (length route1 - 2) (rand 2);
                             end1 = randint start1 (length route1 - 2) (rand 3);
                             segment1 = slice route1 start1 (end1 + 1);
                             start2 = randint 1 (length route2 - 2) (rand 4);
                             end2 = randint start2 (length route2 - 2) (rand 5);
                             segment2 = slice route2 start2 (end2 + 1);
                             new_route1 = take start1 route1 @ segment2 @ drop (end1 + 1) route1;
                             new_route2 = take start2 route2 @ segment1 @ drop (end2 + 1) route2
                         in (case assign_route st s route1_idx new_route1 of
                               None \<Rightarrow> None
                             | Some st1 \<Rightarrow> assign_route st1 s route2_idx new_route2)))
              | _ \<Rightarrow> Some st)))"

text \<open>
  \<open>_generate_neighbor\<close> on the store: the copy, then the operator on the copy.  The result
  is the store afterwards and the address of the routes of the neighbour.
\<close>

definition generate_neighbor_store ::
  "int \<Rightarrow> draws \<Rightarrow> store \<Rightarrow> addr \<Rightarrow> (store \<times> addr) option" where
  "generate_neighbor_store dep d st s =
     (case copy_store st s of
        None \<Rightarrow> None
      | Some (st1, neighbor) \<Rightarrow>
          (case (case drawn_operator d of
                   OpSwap \<Rightarrow> swap_customers_store dep (drawn_ints d) st1 neighbor
                 | OpRelocate \<Rightarrow> relocate_customer_store dep (drawn_ints d) st1 neighbor
                 | OpTwoOpt \<Rightarrow> two_opt_store (drawn_ints d) st1 neighbor
                 | OpCrossExchange \<Rightarrow> cross_exchange_store (drawn_ints d) st1 neighbor) of
             None \<Rightarrow> None
           | Some st2 \<Rightarrow> Some (st2, neighbor)))"

text \<open>
  A solution at \<open>s\<close> is well formed in a store when \<open>s\<close> holds a list of references and
  each of them holds a list of integers.
\<close>

definition well_formed :: "store \<Rightarrow> addr \<Rightarrow> bool" where
  "well_formed st s \<longleftrightarrow>
     (case ref_list st s of
        None \<Rightarrow> False
      | Some refs \<Rightarrow> list_all (\<lambda>a. int_list st a \<noteq> None) refs)"

section \<open>Small instances for concrete runs\<close>

text \<open>
  Three nodes, distances from a static matrix, two vehicles of capacity 20: both customers
  fit a vehicle of their own.
\<close>

definition example_instance :: VRPInstance where
  "example_instance =
     \<lparr> capacity = 20, depot = 0, node_coords = Map.empty,
       demands = [0 \<mapsto> 0, 1 \<mapsto> 10, 2 \<mapsto> 15],
       distance_matrix = Some [[0, 10, 20], [10, 0, 15], [20, 15, 0]],
       time_windows = Map.empty, service_times = Map.empty, vehicle_count = 2,
       vehicle_capacities = [20, 20], dynamic_distances = [] \<rparr>"

definition example_solution :: Solution where
  "example_solution = (new_solution (Some example_instance))\<lparr>routes := [[0, 1, 0], [0, 2, 0]]\<rparr>"

text \<open>One vehicle of capacity 20 and a customer whose demand is 25.\<close>

definition tight_instance :: VRPInstance where
  "tight_instance =
     \<lparr> capacity = 20, depot = 0, node_coords = Map.empty,
       demands = [0 \<mapsto> 0, 1 \<mapsto> 10, 2 \<mapsto> 25],
       distance_matrix = Some [[0, 10, 20], [10, 0, 15], [20, 15, 0]],
       time_windows = Map.empty, service_times = Map.empty, vehicle_count = 1,
       vehicle_capacities = [20], dynamic_distances = [] \<rparr>"

text \<open>A customer whose time window closes at 5, at distance 10 from the depot.\<close>

definition late_instance :: VRPInstance where
  "late_instance =
     \<lparr> capacity = 20, depot = 0, node_coords = Map.empty,
       demands = [0 \<mapsto> 0, 1 \<mapsto> 10],
       distance_matrix = Some [[0, 10], [10, 0]],
       time_windows = [1 \<mapsto> (0, 5)], service_times = Map.empty, vehicle_count = 1,
       vehicle_capacities = [20], dynamic_distances = [] \<rparr>"

text \<open>One tour through both customers of the first instance.\<close>

definition tour_solution :: Solution where
  "tour_solution = (new_solution (Some example_instance))\<lparr>routes := [[0, 1, 2, 0]]\<rparr>"

text \<open>
  An annealing object that stops after one iteration, with the draws of a 2-opt move and of
  a relocate move; a tabu search that stops after one iteration, on a single route.
\<close>

definition one_step_annealing :: SimulatedAnnealing where
  "one_step_annealing = (new_simulated_annealing example_instance)\<lparr>sa_max_iterations := 1\<rparr>"

definition two_opt_draws :: "nat \<Rightarrow> draws" where
  "two_opt_draws k = \<lparr> drawn_operator = OpTwoOpt, drawn_ints = (\<lambda>n. 0), drawn_uniform = 0 \<rparr>"

definition relocate_draws :: "nat \<Rightarrow> draws" where
  "relocate_draws k =
     \<lparr> drawn_operator = OpRelocate, drawn_ints = (\<lambda>n. if n = 2 then 1 else 0),
       drawn_uniform = 0 \<rparr>"

definition single_solution :: Solution where
  "single_solution = (new_solution (Some late_instance))\<lparr>routes := [[0, 1, 0]]\<rparr>"

definition one_step_tabu :: TabuSearch where
  "one_step_tabu = (new_tabu_search late_instance)\<lparr>ts_max_iterations := 1\<rparr>"

definition fixed_tabu_draws :: "nat \<Rightarrow> tabu_draws" where
  "fixed_tabu_draws k = \<lparr> swap_rand = (\<lambda>n. 0), two_opt_rand = (\<lambda>n. 0) \<rparr>"

text \<open>
  An instance with no vehicle and capacity 0, as \<open>set_fleet(0, 0)\<close> leaves it, and an
  environment for \<open>solve\<close> on it.
\<close>

definition degenerate_instance :: VRPInstance where
  "degenerate_instance =
     \<lparr> capacity = 0, depot = 0, node_coords = Map.empty,
       demands = [0 \<mapsto> 0, 1 \<mapsto> 10],
       distance_matrix = Some [[0, 10], [10, 0]],
       time_windows = Map.empty, service_times = Map.empty, vehicle_count = 0,
       vehicle_capacities = [], dynamic_distances = [] \<rparr>"

definition example_environment :: environment where
  "example_environment =
     \<lparr> set_order = [1], sa_oracle = two_opt_draws, tabu_oracle = fixed_tabu_draws,
       savings_construct = (\<lambda>inst. Inr (new_solution (Some inst))) \<rparr>"

lemma example_distance [simp]:
  "get_distance example_instance 0 1 0 = Inr 10"
  "get_distance example_instance 1 0 0 = Inr 10"
  "get_distance example_instance 0 2 0 = Inr 20"
  "get_distance example_instance 2 0 0 = Inr 20"
  "get_distance example_instance 1 2 0 = Inr 15"
  "get_distance example_instance 2 1 0 = Inr 15"
  by (simp_all add: get_distance_def example_instance_def py_get_def)

lemma tight_distance [simp]:
  "get_distance tight_instance 0 1 0 = Inr 10"
  "get_distance tight_instance 1 0 0 = Inr 10"
  "get_distance tight_instance 0 2 0 = Inr 20"
  "get_distance tight_instance 2 0 0 = Inr 20"
  "get_distance tight_instance 1 2 0 = Inr 15"
  "get_distance tight_instance 2 1 0 = Inr 15"
  "get_distance tight_instance 0 0 0 = Inr 0"
  "get_distance tight_instance 1 1 0 = Inr 0"
  "get_distance tight_instance 2 2 0 = Inr 0"
  by (simp_all add: get_distance_def tight_instance_def py_get_def)

lemma tight_fields [simp]:
  "depot tight_instance = 0" "capacity tight_instance = 20"
  "vehicle_capacities tight_instance = [20]" "vehicle_count tight_instance = 1"
  "demand_of tight_instance 1 = 10" "demand_of tight_instance 2 = 25"
  "is_feasible_time_window tight_instance c t"
  "get_waiting_time tight_instance c t = 0" "service_time_of tight_instance c = 0"
  by (simp_all add: tight_instance_def demand_of_def is_feasible_time_window_def
        get_waiting_time_def service_time_of_def)

lemma late_distance:
  "get_distance late_instance 0 1 0 = Inr 10"
  by (simp add: get_distance_def late_instance_def py_get_def)

lemma late_window:
  "is_feasible_time_window late_instance 1 10 = False"
  "get_waiting_time late_instance 1 10 = 0"
  by (simp_all add: is_feasible_time_window_def get_waiting_time_def late_instance_def)

lemma late_find_best:
  "find_best late_instance 0 0 0 20 [1] None = Inr (Some (1, 10))"
  by (simp add: late_distance late_window demand_of_def) (simp add: late_instance_def)

lemma example_distance_depot [simp]: "get_distance example_instance 0 0 0 = Inr 0"
  by (simp add: get_distance_def example_instance_def py_get_def)

lemma late_distance_back [simp]:
  "get_distance late_instance 1 0 0 = Inr 10"
  by (simp add: get_distance_def late_instance_def py_get_def)

lemma float_max_ge_one: "\<not> 1 > float_max"
  by (simp add: float_max_def)

lemma degenerate_distance [simp]:
  "get_distance degenerate_instance 0 1 0 = Inr 10"
  "get_distance degenerate_instance 1 0 0 = Inr 10"
  "get_distance degenerate_instance 0 0 0 = Inr 0"
  "get_distance degenerate_instance 1 1 0 = Inr 0"
  by (simp_all add: get_distance_def degenerate_instance_def py_get_def)

lemma degenerate_fields [simp]:
  "depot degenerate_instance = 0" "capacity degenerate_instance = 0"
  "vehicle_capacities degenerate_instance = []" "vehicle_count degenerate_instance = 0"
  "demand_of degenerate_instance 1 = 10"
  by (simp_all add: degenerate_instance_def demand_of_def)

section \<open>Proof set-up\<close>

text \<open>The loop equations are unfolded by hand, one step at a time.\<close>

declare build_route_loop.simps [simp del]
declare construct_vehicles.simps [simp del]
declare construct_extra.simps [simp del]
declare tabu_loop.simps [simp del]

section \<open>The cost of a solution\<close>

text \<open>
  The sum of the specification: \<open>distance(route[i], route[i+1])\<close> over every consecutive
  pair of every route, where \<open>distance\<close> is \<open>get_distance\<close> at the default time slot.
\<close>

definition distance_or_zero :: "VRPInstance \<Rightarrow> int \<Rightarrow> int \<Rightarrow> real" where
  "distance_or_zero inst a b = (case get_distance inst a b 0 of Inl e \<Rightarrow> 0 | Inr d \<Rightarrow> d)"

definition route_distance_sum :: "VRPInstance \<Rightarrow> int list \<Rightarrow> real" where
  "route_distance_sum inst route =
     (\<Sum>(a, b)\<leftarrow>zip route (tl route). distance_or_zero inst a b)"

definition consecutive_distance_sum :: "VRPInstance \<Rightarrow> int list list \<Rightarrow> real" where
  "consecutive_distance_sum inst rs = (\<Sum>route\<leftarrow>rs. route_distance_sum inst route)"

definition route_distances_defined :: "VRPInstance \<Rightarrow> int list \<Rightarrow> bool" where
  "route_distances_defined inst route =
     list_all (\<lambda>(a, b). isl (get_distance inst a b 0) = False) (zip route (tl route))"

definition distances_defined :: "VRPInstance \<Rightarrow> int list list \<Rightarrow> bool" where
  "distances_defined inst rs = list_all (route_distances_defined inst) rs"

lemma route_metrics_loop_defined:
  "route_distances_defined inst route \<Longrightarrow>
   \<exists>t' l'. route_metrics_loop inst route (d, t, l) = Inr (d + route_distance_sum inst route, t', l')"
proof (induction inst route "(d, t, l)" arbitrary: d t l rule: route_metrics_loop.induct)
  case (1 inst a b rest d t l)
  from "1.prems" obtain x where x: "get_distance inst a b 0 = Inr x"
    and rest: "route_distances_defined inst (b # rest)"
    by (cases "get_distance inst a b 0") (auto simp: route_distances_defined_def)
  have sum: "route_distance_sum inst (a # b # rest) = x + route_distance_sum inst (b # rest)"
    using x by (simp add: route_distance_sum_def distance_or_zero_def)
  show ?case
  proof (cases "b \<noteq> depot inst")
    case True
    from "1.hyps"(1)[OF x refl refl True refl refl rest]
    show ?thesis using x True sum by (simp add: Let_def add.assoc)
  next
    case False
    from "1.hyps"(2)[OF x refl refl False rest]
    show ?thesis using x False sum by (simp add: Let_def add.assoc)
  qed
qed (simp_all add: route_distance_sum_def)

lemma route_metrics_loop_undefined:
  "\<not> route_distances_defined inst route \<Longrightarrow> \<exists>e. route_metrics_loop inst route (d, t, l) = Inl e"
proof (induction inst route "(d, t, l)" arbitrary: d t l rule: route_metrics_loop.induct)
  case (1 inst a b rest d t l)
  show ?case
  proof (cases "get_distance inst a b 0")
    case (Inl e)
    then show ?thesis by simp
  next
    case (Inr x)
    with "1.prems" have rest: "\<not> route_distances_defined inst (b # rest)"
      by (simp add: route_distances_defined_def)
    show ?thesis
    proof (cases "b \<noteq> depot inst")
      case True
      from "1.hyps"(1)[OF Inr refl refl True refl refl rest]
      show ?thesis using Inr True by (simp add: Let_def)
    next
      case False
      from "1.hyps"(2)[OF Inr refl refl False rest]
      show ?thesis using Inr False by (simp add: Let_def)
    qed
  qed
qed (simp_all add: route_distances_defined_def)

lemma calculate_route_metrics_defined:
  assumes "route_distances_defined inst route"
  shows "\<exists>t l. calculate_route_metrics inst route =
           Inr (route_distance_sum inst route, route_distance_sum inst route, t, l)"
proof (cases "length route < 2")
  case True
  then have "route = [] \<or> (\<exists>x. route = [x])"
    by (cases route) auto
  with True show ?thesis
    by (auto simp: calculate_route_metrics_def route_distance_sum_def)
next
  case False
  from route_metrics_loop_defined[OF assms, of 0 0 0] False show ?thesis
    by (auto simp: calculate_route_metrics_def)
qed

lemma calculate_route_metrics_undefined:
  assumes "\<not> route_distances_defined inst route"
  shows "\<exists>e. calculate_route_metrics inst route = Inl e"
proof -
  have "\<not> length route < 2"
  proof
    assume "length route < 2"
    then have "zip route (tl route) = []" by (cases route) auto
    with assms show False by (simp add: route_distances_defined_def)
  qed
  with route_metrics_loop_undefined[OF assms, of 0 0 0] show ?thesis
    by (auto simp: calculate_route_metrics_def)
qed

lemma cost_loop_defined:
  "distances_defined inst rs \<Longrightarrow>
   \<exists>td tt rds rts vls. cost_loop inst rs (tc, td0, tt0, rds0, rts0, vls0) =
      Inr (tc + consecutive_distance_sum inst rs, td, tt, rds, rts, vls)"
proof (induction rs arbitrary: tc td0 tt0 rds0 rts0 vls0)
  case Nil
  show ?case by (simp add: consecutive_distance_sum_def)
next
  case (Cons route rs)
  from Cons.prems have r: "route_distances_defined inst route" and rs: "distances_defined inst rs"
    by (simp_all add: distances_defined_def)
  from calculate_route_metrics_defined[OF r] obtain t l where
    m: "calculate_route_metrics inst route =
          Inr (route_distance_sum inst route, route_distance_sum inst route, t, l)" by blast
  from Cons.IH[OF rs, of "tc + route_distance_sum inst route"
      "td0 + route_distance_sum inst route" "tt0 + t"
      "rds0 @ [route_distance_sum inst route]" "rts0 @ [t]" "vls0 @ [l]"]
  show ?case
    using m by (simp add: consecutive_distance_sum_def add.assoc)
qed

lemma cost_loop_undefined:
  "\<not> distances_defined inst rs \<Longrightarrow> \<exists>e. cost_loop inst rs acc = Inl e"
proof (induction rs arbitrary: acc)
  case Nil
  then show ?case by (simp add: distances_defined_def)
next
  case (Cons route rs)
  obtain tc td tt rds rts vls where acc: "acc = (tc, td, tt, rds, rts, vls)"
    by (cases acc) auto
  show ?case
  proof (cases "route_distances_defined inst route")
    case True
    with Cons.prems have "\<not> distances_defined inst rs" by (simp add: distances_defined_def)
    from Cons.IH[OF this] calculate_route_metrics_defined[OF True] show ?thesis
      unfolding acc by (auto simp: )
  next
    case False
    from calculate_route_metrics_undefined[OF False] show ?thesis
      unfolding acc by auto
  qed
qed

lemma calculate_cost_value:
  assumes "sol_instance s = Some inst" and "distances_defined inst (routes s)"
  shows "\<exists>s'. calculate_cost s = Inr (consecutive_distance_sum inst (routes s), s')
              \<and> routes s' = routes s \<and> sol_instance s' = sol_instance s
              \<and> total_cost s' = consecutive_distance_sum inst (routes s)
              \<and> calculate_cost s' = Inr (consecutive_distance_sum inst (routes s), s')"
proof -
  from cost_loop_defined[OF assms(2), of 0 0 0 "[]" "[]" "[]"] obtain td tt rds rts vls where
    loop: "cost_loop inst (routes s) (0, 0, 0, [], [], []) =
             Inr (consecutive_distance_sum inst (routes s), td, tt, rds, rts, vls)" by auto
  define s' where "s' = s\<lparr> total_cost := consecutive_distance_sum inst (routes s),
      total_distance := td, total_time := tt,
      route_distances := rds, route_times := rts, vehicle_loads := vls \<rparr>"
  have 1: "calculate_cost s = Inr (consecutive_distance_sum inst (routes s), s')"
    using assms loop by (simp add: calculate_cost_def s'_def)
  have 2: "routes s' = routes s" "sol_instance s' = Some inst"
    "total_cost s' = consecutive_distance_sum inst (routes s)"
    using assms by (simp_all add: s'_def)
  have 3: "calculate_cost s' = Inr (consecutive_distance_sum inst (routes s), s')"
    using 2 loop by (simp add: calculate_cost_def s'_def)
  from 1 2 3 assms(1) show ?thesis by auto
qed

lemma calculate_cost_undefined:
  assumes "sol_instance s = Some inst" and "\<not> distances_defined inst (routes s)"
  shows "\<exists>e. calculate_cost s = Inl e"
proof -
  from cost_loop_undefined[OF assms(2), of "(0, 0, 0, [], [], [])"] obtain e where
    "cost_loop inst (routes s) (0, 0, 0, [], [], []) = Inl e" by blast
  with assms show ?thesis by (simp add: calculate_cost_def)
qed

lemma calculate_cost_result:
  assumes "calculate_cost s = Inr (c, s')"
  shows "total_cost s' = c \<or> sol_instance s = None"
    and "routes s' = routes s" and "sol_instance s' = sol_instance s"
  using assms by (auto simp: calculate_cost_def split: option.splits sum.splits)

lemma calculate_cost_attached:
  assumes "calculate_cost s = Inr (c, s')" and "sol_instance s = Some inst"
  shows "total_cost s' = consecutive_distance_sum inst (routes s)"
  using assms calculate_cost_value[of s inst] calculate_cost_undefined[of s inst]
  by (cases "distances_defined inst (routes s)") auto

text \<open>
  C5.  For a solution with an attached instance, \<open>calculate_cost\<close> returns the sum, over
  all routes, of the distances of the consecutive pairs of nodes, and stores it in
  \<open>total_cost\<close>; the routes are left as they were, and a second call on the resulting
  solution returns the same value and the same solution, so any number of repeated calls
  does.  This is the case whenever \<open>get_distance\<close> is defined on all those pairs;
  otherwise the exception of \<open>get_distance\<close> comes out of \<open>calculate_cost\<close>.
\<close>

theorem calculate_cost_sum_idempotent:
  assumes "sol_instance s = Some inst"
  shows "if distances_defined inst (routes s)
         then (\<exists>s'. calculate_cost s = Inr (consecutive_distance_sum inst (routes s), s')
                 \<and> routes s' = routes s
                 \<and> total_cost s' = consecutive_distance_sum inst (routes s)
                 \<and> calculate_cost s' = Inr (consecutive_distance_sum inst (routes s), s'))
         else (\<exists>e. calculate_cost s = Inl e)"
  using calculate_cost_value[OF assms] calculate_cost_undefined[OF assms] by auto

theorem calculate_cost_sum_idempotent_witness:
  "sol_instance example_solution = Some example_instance
   \<and> distances_defined example_instance (routes example_solution)
   \<and> (\<exists>s'. calculate_cost example_solution = Inr (60, s') \<and> routes s' = [[0, 1, 0], [0, 2, 0]]
          \<and> total_cost s' = 60 \<and> calculate_cost s' = Inr (60, s'))"
proof -
  have h: "sol_instance example_solution = Some example_instance"
    by (simp add: example_solution_def new_solution_def)
  have r: "routes example_solution = [[0, 1, 0], [0, 2, 0]]"
    by (simp add: example_solution_def)
  have d: "distances_defined example_instance (routes example_solution)"
    by (simp add: r distances_defined_def route_distances_defined_def)
  have c: "consecutive_distance_sum example_instance (routes example_solution) = 60"
    by (simp add: r consecutive_distance_sum_def route_distance_sum_def distance_or_zero_def)
  from calculate_cost_sum_idempotent[OF h] d c r h show ?thesis by simp
qed

section \<open>Coverage of the greedy construction\<close>

text \<open>The customers of a list of routes: all the nodes visited, the depot left out.\<close>

definition customers_of :: "int \<Rightarrow> int list list \<Rightarrow> int list" where
  "customers_of dep rs = filter (\<lambda>c. c \<noteq> dep) (concat rs)"

lemma remove_visited_disjoint:
  "set route \<inter> set u = {} \<Longrightarrow> remove_visited route u = u"
  unfolding remove_visited_def by (induction route) auto

lemma normalize_route_closed:
  "normalize_route dep (dep # xs @ [dep]) = dep # xs @ [dep]"
  by (simp add: normalize_route_def)

lemma customers_of_snoc:
  "dep \<notin> set xs \<Longrightarrow>
   customers_of dep (rs @ [dep # xs @ [dep]]) = customers_of dep rs @ xs"
  by (auto simp: customers_of_def filter_id_conv)

text \<open>One call of \<open>_build_route\<close> followed by the update of the solution.\<close>

lemma build_route_step:
  assumes br: "build_route inst u v = Inr (route, u1)"
    and du: "distinct u" and dep: "depot inst \<notin> set u"
  shows "distinct u1 \<and> depot inst \<notin> set u1 \<and>
         (if route \<noteq> [] then
            remove_visited route u1 = u1 \<and>
            mset (customers_of (depot inst) (routes (add_route (depot inst) route s))) + mset u1
              = mset (customers_of (depot inst) (routes s)) + mset u
          else mset u1 = mset u)"
proof -
  from build_route_shape[OF br] show ?thesis
  proof
    assume a: "route = [] \<and> mset u1 = mset u"
    then have "distinct u1" "set u1 = set u"
      using du by (metis mset_eq_imp_distinct_iff, metis mset_eq_setD)
    with a dep show ?thesis by simp
  next
    assume "\<exists>xs. xs \<noteq> [] \<and> route = depot inst # xs @ [depot inst] \<and> mset u = mset xs + mset u1"
    then obtain xs where xs: "xs \<noteq> []" "route = depot inst # xs @ [depot inst]"
      "mset u = mset xs + mset u1" by blast
    from xs(3) have m: "mset u = mset (xs @ u1)" by simp
    with du have dx: "distinct (xs @ u1)" by (metis mset_eq_imp_distinct_iff)
    from m have su: "set u = set xs \<union> set u1" by (metis mset_eq_setD set_append)
    with dep have nd: "depot inst \<notin> set xs" "depot inst \<notin> set u1" by auto
    from dx nd have "set route \<inter> set u1 = {}" unfolding xs(2) by auto
    then have rv: "remove_visited route u1 = u1" by (rule remove_visited_disjoint)
    have "customers_of (depot inst) (routes (add_route (depot inst) route s))
            = customers_of (depot inst) (routes s) @ xs"
      unfolding xs(2) by (simp add: add_route_def normalize_route_closed customers_of_snoc nd)
    with rv xs dx nd show ?thesis by simp
  qed
qed

lemma construct_vehicles_invariant:
  "construct_vehicles inst (s, u, v) = Inr (s', u') \<Longrightarrow> distinct u \<Longrightarrow> depot inst \<notin> set u \<Longrightarrow>
   distinct u' \<and> depot inst \<notin> set u' \<and>
   mset (customers_of (depot inst) (routes s')) + mset u'
     = mset (customers_of (depot inst) (routes s)) + mset u"
proof (induction inst "(s, u, v)" arbitrary: s u v rule: construct_vehicles.induct)
  case (1 inst s u v)
  note unfold = construct_vehicles.simps[of inst s u v]
  show ?case
  proof (cases "u \<noteq> [] \<and> int v < vehicle_count inst")
    case False
    with "1.prems" show ?thesis by (auto simp: unfold)
  next
    case True
    show ?thesis
    proof (cases "build_route inst u v")
      case (Inl e)
      with "1.prems"(1) True show ?thesis by (simp add: unfold)
    next
      case (Inr p)
      obtain route u1 where p: "p = (route, u1)" by (cases p)
      note br = Inr[unfolded p]
      note step = build_route_step[OF br "1.prems"(2,3), of s]
      show ?thesis
      proof (cases "route \<noteq> []")
        case ne: True
        from "1.prems"(1) True br ne step
        have run: "construct_vehicles inst (add_route (depot inst) route s, u1, v + 1) = Inr (s', u')"
          by (simp add: unfold)
        from step ne have rv: "remove_visited route u1 = u1" by simp
        from "1.hyps"(1)[OF True br[symmetric, THEN sym] refl ne, unfolded rv, OF run] step ne
        show ?thesis by simp
      next
        case e: False
        from "1.prems"(1) True br e
        have run: "construct_vehicles inst (s, u1, v + 1) = Inr (s', u')" by (simp add: unfold)
        from "1.hyps"(2)[OF True br[symmetric, THEN sym] refl e run] step e
        show ?thesis by simp
      qed
    qed
  qed
qed

lemma construct_extra_invariant:
  "construct_extra inst (s, u) = Inr (s', u') \<Longrightarrow> distinct u \<Longrightarrow> depot inst \<notin> set u \<Longrightarrow>
   u' = [] \<and>
   mset (customers_of (depot inst) (routes s'))
     = mset (customers_of (depot inst) (routes s)) + mset u"
proof (induction inst "(s, u)" arbitrary: s u rule: construct_extra.induct)
  case (1 inst s u)
  note unfold = construct_extra.simps[of inst s u]
  show ?case
  proof (cases "u \<noteq> []")
    case False
    with "1.prems" show ?thesis by (auto simp: unfold)
  next
    case True
    show ?thesis
    proof (cases "build_route inst u (length (routes s))")
      case (Inl e)
      with "1.prems"(1) True show ?thesis by (simp add: unfold)
    next
      case (Inr p)
      obtain route u1 where p: "p = (route, u1)" by (cases p)
      note br = Inr[unfolded p]
      note step = build_route_step[OF br "1.prems"(2,3), of s]
      show ?thesis
      proof (cases "route \<noteq> []")
        case ne: True
        from step ne have rv: "remove_visited route u1 = u1" by simp
        from "1.prems"(1) True br ne rv
        have run: "construct_extra inst (add_route (depot inst) route s, u1) = Inr (s', u')"
          by (simp add: unfold)
        from "1.hyps"(1)[OF True br[symmetric, THEN sym] refl ne, unfolded rv, OF run] step ne
        show ?thesis by simp
      next
        case e: False
        with step have m: "mset u1 = mset u" and d1: "distinct u1" and nd: "depot inst \<notin> set u1"
          by simp_all
        from m True have "u1 \<noteq> []" by auto
        then obtain first remaining where u1: "u1 = first # remaining" by (cases u1) auto
        have sr: "set_remove first u1 = Inr remaining" by (simp add: set_remove_def u1)
        let ?s1 = "add_route (depot inst) ([depot inst] @ [first] @ [depot inst]) s"
        from "1.prems"(1) True br e u1 sr
        have run: "construct_extra inst (?s1, remaining) = Inr (s', u')"
          by (simp add: unfold)
        from d1 nd u1 have dr: "distinct remaining" "depot inst \<notin> set remaining"
          "first \<noteq> depot inst" by auto
        have c1: "customers_of (depot inst) (routes ?s1)
                    = customers_of (depot inst) (routes s) @ [first]"
          using customers_of_snoc[of "depot inst" "[first]" "routes s"] dr(3)
          by (simp add: add_route_def normalize_route_def)
        from "1.hyps"(2)[OF True br[symmetric, THEN sym] refl e u1 sr run dr(1,2)]
        have "u' = []" "mset (customers_of (depot inst) (routes s'))
                = mset (customers_of (depot inst) (routes ?s1)) + mset remaining"
          by simp_all
        with c1 m[symmetric] u1 show ?thesis by simp
      qed
    qed
  qed
qed

lemma construct_customers:
  assumes "unvisited_order inst unvisited0" and "construct inst unvisited0 = Inr sol"
  shows "mset (customers_of (depot inst) (routes sol)) = mset unvisited0"
proof -
  from assms(1) have d: "distinct unvisited0" "depot inst \<notin> set unvisited0"
    by (auto simp: unvisited_order_def)
  from assms(2) obtain s1 u1 s2 u2 c where
    v: "construct_vehicles inst (new_solution (Some inst), unvisited0, 0) = Inr (s1, u1)"
    and e: "construct_extra inst (s1, u1) = Inr (s2, u2)"
    and k: "calculate_cost s2 = Inr (c, sol)"
    by (auto simp: construct_def split: sum.splits)
  from construct_vehicles_invariant[OF v d]
  have i1: "distinct u1" "depot inst \<notin> set u1"
    "mset (customers_of (depot inst) (routes s1)) + mset u1 = mset unvisited0"
    by (simp_all add: new_solution_def customers_of_def)
  from construct_extra_invariant[OF e i1(1,2)] i1(3) calculate_cost_result(2)[OF k]
  show ?thesis by simp
qed

definition served_exactly_once :: "int list list \<Rightarrow> int \<Rightarrow> bool" where
  "served_exactly_once rs c \<longleftrightarrow>
     length (filter (\<lambda>route. c \<in> set route) rs) = 1 \<and> count_list (concat rs) c = 1"

definition nodes_defined :: "VRPInstance \<Rightarrow> int list \<Rightarrow> bool" where
  "nodes_defined inst ns =
     list_all (\<lambda>a. list_all (\<lambda>b. \<not> isl (get_distance inst a b 0)) ns) ns"

lemma count_list_concat:
  "count_list (concat rs) c = (\<Sum>r\<leftarrow>rs. count_list r c)"
  by (induction rs) simp_all

lemma routes_containing_le_count:
  "length (filter (\<lambda>r. c \<in> set r) rs) \<le> count_list (concat rs) c"
proof (induction rs)
  case Nil
  show ?case by simp
next
  case (Cons r rs)
  have "c \<in> set r \<Longrightarrow> 0 < count_list r c"
    using count_list_0_iff[of r c] by auto
  with Cons show ?case by (auto simp: Suc_le_eq)
qed

lemma count_one_served_once:
  assumes "count_list (concat rs) c = 1"
  shows "served_exactly_once rs c"
proof -
  have "c \<in> set (concat rs)" using assms by (metis count_list_0_iff zero_neq_one)
  then have "filter (\<lambda>r. c \<in> set r) rs \<noteq> []" by (auto simp: filter_empty_conv)
  then have "0 < length (filter (\<lambda>r. c \<in> set r) rs)" by blast
  with routes_containing_le_count[of c rs] assms show ?thesis
    unfolding served_exactly_once_def by linarith
qed

lemma count_list_filter_neq:
  "c \<noteq> dep \<Longrightarrow> count_list (filter (\<lambda>x. x \<noteq> dep) xs) c = count_list xs c"
  by (induction xs) auto

lemma find_best_defined:
  assumes "\<forall>c\<in>set cands. \<exists>d. get_distance inst node c 0 = Inr d"
  shows "\<exists>b. find_best inst node load t cap cands best = Inr b
             \<and> (b = best \<or> (\<exists>c d. b = Some (c, d) \<and> c \<in> set cands))"
  using assms
proof (induction cands arbitrary: best)
  case Nil
  show ?case by simp
next
  case (Cons c cands)
  from Cons.prems obtain d where d: "get_distance inst node c 0 = Inr d" by auto
  from Cons.prems have rest: "\<forall>c\<in>set cands. \<exists>d. get_distance inst node c 0 = Inr d" by simp
  from Cons.IH[OF rest, of best] Cons.IH[OF rest, of "Some (c, d)"]
  show ?case using d by (auto simp: Let_def)
qed

lemma build_route_loop_defined:
  assumes D: "\<forall>a\<in>N. \<forall>b\<in>N. \<exists>d. get_distance inst a b 0 = Inr d"
  shows "node \<in> N \<Longrightarrow> last route \<in> N \<Longrightarrow> set u \<subseteq> N \<Longrightarrow>
         \<exists>r u'. build_route_loop inst cap (route, node, load, t, u) = Inr (r, u')"
proof (induction "length u" arbitrary: route node load t u rule: less_induct)
  case less
  note unfold = build_route_loop.simps[of inst cap route node load t u]
  show ?case
  proof (cases "u = []")
    case True
    then show ?thesis unfolding unfold by simp
  next
    case False
    have "\<forall>c\<in>set u. \<exists>d. get_distance inst node c 0 = Inr d"
      using D less.prems by blast
    from find_best_defined[OF this, of load t cap None] obtain b where
      b: "find_best inst node load t cap u None = Inr b"
      and bb: "b = None \<or> (\<exists>c d. b = Some (c, d) \<and> c \<in> set u)" by blast
    from bb show ?thesis
    proof
      assume "b = None"
      with b False show ?thesis by (simp add: unfold)
    next
      assume "\<exists>c d. b = Some (c, d) \<and> c \<in> set u"
      then obtain c d where c: "b = Some (c, d)" "c \<in> set u" by blast
      with less.prems have cN: "c \<in> N" by blast
      with D less.prems obtain tt where tt: "get_distance inst (last route) c 0 = Inr tt"
        by blast
      have sr: "set_remove c u = Inr (remove1 c u)" using c by (simp add: set_remove_def)
      have len: "length (remove1 c u) < length u"
        using set_remove_length[OF sr] by simp
      have sub: "set (remove1 c u) \<subseteq> N"
        using less.prems(3) set_remove1_subset[of c u] by blast
      have "last (route @ [c]) \<in> N" using cN by simp
      from less.hyps[OF len cN this sub, of "load + demand_of inst c"
          "t + tt + get_waiting_time inst c (t + tt) + service_time_of inst c"]
      obtain r u' where
        "build_route_loop inst cap (route @ [c], c, load + demand_of inst c,
           t + tt + get_waiting_time inst c (t + tt) + service_time_of inst c, remove1 c u)
         = Inr (r, u')" by blast
      with b c tt sr False show ?thesis by (simp add: unfold Let_def)
    qed
  qed
qed

lemma build_route_defined:
  assumes D: "\<forall>a\<in>N. \<forall>b\<in>N. \<exists>d. get_distance inst a b 0 = Inr d"
    and "depot inst \<in> N" and "set u \<subseteq> N"
  shows "\<exists>route u1. build_route inst u v = Inr (route, u1)"
proof -
  define cap where "cap = (if v < length (vehicle_capacities inst)
             then vehicle_capacities inst ! v else capacity inst)"
  from build_route_loop_defined[OF D, of "depot inst" "[depot inst]" u cap 0 0] assms(2,3)
  obtain r u' where "build_route_loop inst cap ([depot inst], depot inst, 0, 0, u) = Inr (r, u')"
    by auto
  then show ?thesis by (simp add: build_route_def cap_def[symmetric] Let_def)
qed

lemma build_route_nodes:
  assumes "build_route inst u v = Inr (route, u1)" and "depot inst \<in> N" and "set u \<subseteq> N"
  shows "set route \<subseteq> N \<and> set u1 \<subseteq> N \<and> set (remove_visited route u1) \<subseteq> N"
proof -
  have rv: "set (remove_visited r w) \<subseteq> set w" for r w
    unfolding remove_visited_def
  proof (induction r arbitrary: w)
    case Nil
    show ?case by simp
  next
    case (Cons c r)
    have "set (if c \<in> set w then remove1 c w else w) \<subseteq> set w"
      using set_remove1_subset[of c w] by auto
    with Cons[of "if c \<in> set w then remove1 c w else w"] show ?case by auto
  qed
  from build_route_shape[OF assms(1)] have "set route \<subseteq> N \<and> set u1 \<subseteq> N"
  proof
    assume "route = [] \<and> mset u1 = mset u"
    then show ?thesis using assms(3) by (metis empty_set empty_subsetI mset_eq_setD)
  next
    assume "\<exists>xs. xs \<noteq> [] \<and> route = depot inst # xs @ [depot inst] \<and> mset u = mset xs + mset u1"
    then obtain xs where xs: "route = depot inst # xs @ [depot inst]" "mset u = mset (xs @ u1)"
      by auto
    from xs(2) have "set u = set xs \<union> set u1" by (metis mset_eq_setD set_append)
    with assms(2,3) xs(1) show ?thesis by auto
  qed
  with rv[of route u1] show ?thesis by blast
qed

lemma add_route_nodes:
  assumes "\<forall>r\<in>set (routes s). set r \<subseteq> N" and "set route \<subseteq> N" and "dep \<in> N"
  shows "\<forall>r\<in>set (routes (add_route dep route s)). set r \<subseteq> N"
proof -
  have "set (normalize_route dep route) \<subseteq> insert dep (set route)"
    by (auto simp: normalize_route_def Let_def)
  with assms show ?thesis by (auto simp: add_route_def)
qed

lemma construct_vehicles_defined:
  assumes D: "\<forall>a\<in>N. \<forall>b\<in>N. \<exists>d. get_distance inst a b 0 = Inr d" and dep: "depot inst \<in> N"
  shows "set u \<subseteq> N \<Longrightarrow> \<forall>r\<in>set (routes s). set r \<subseteq> N \<Longrightarrow>
         \<exists>s' u'. construct_vehicles inst (s, u, v) = Inr (s', u')
                 \<and> set u' \<subseteq> N \<and> (\<forall>r\<in>set (routes s'). set r \<subseteq> N)
                 \<and> sol_instance s' = sol_instance s"
  using assms
proof (induction inst "(s, u, v)" arbitrary: s u v rule: construct_vehicles.induct)
  case (1 inst s u v)
  note unfold = construct_vehicles.simps[of inst s u v]
  note D = "1.prems"(3) and dep = "1.prems"(4)
  show ?case
  proof (cases "u \<noteq> [] \<and> int v < vehicle_count inst")
    case False
    with "1.prems" show ?thesis by (auto simp: unfold)
  next
    case True
    from build_route_defined[OF D dep "1.prems"(1), of v] obtain route u1 where
      br: "build_route inst u v = Inr (route, u1)" by blast
    note nodes = build_route_nodes[OF br dep "1.prems"(1)]
    show ?thesis
    proof (cases "route \<noteq> []")
      case ne: True
      from add_route_nodes[OF "1.prems"(2) _ dep, of route] nodes
      have ar: "\<forall>r\<in>set (routes (add_route (depot inst) route s)). set r \<subseteq> N" by blast
      from "1.hyps"(1)[OF True br[symmetric, THEN sym] refl ne _ ar D dep] nodes
      show ?thesis using True br ne by (simp add: unfold add_route_def)
    next
      case e: False
      from "1.hyps"(2)[OF True br[symmetric, THEN sym] refl e _ "1.prems"(2) D dep] nodes
      show ?thesis using True br e by (simp add: unfold)
    qed
  qed
qed

lemma construct_extra_defined:
  assumes D: "\<forall>a\<in>N. \<forall>b\<in>N. \<exists>d. get_distance inst a b 0 = Inr d" and dep: "depot inst \<in> N"
  shows "set u \<subseteq> N \<Longrightarrow> \<forall>r\<in>set (routes s). set r \<subseteq> N \<Longrightarrow>
         \<exists>s' u'. construct_extra inst (s, u) = Inr (s', u')
                 \<and> (\<forall>r\<in>set (routes s'). set r \<subseteq> N)
                 \<and> sol_instance s' = sol_instance s"
  using assms
proof (induction inst "(s, u)" arbitrary: s u rule: construct_extra.induct)
  case (1 inst s u)
  note unfold = construct_extra.simps[of inst s u]
  note D = "1.prems"(3) and dep = "1.prems"(4)
  show ?case
  proof (cases "u \<noteq> []")
    case False
    then have "construct_extra inst (s, u) = Inr (s, u)" unfolding unfold by simp
    with "1.prems"(2) show ?thesis by blast
  next
    case True
    from build_route_defined[OF D dep "1.prems"(1), of "length (routes s)"] obtain route u1
      where br: "build_route inst u (length (routes s)) = Inr (route, u1)" by blast
    note nodes = build_route_nodes[OF br dep "1.prems"(1)]
    show ?thesis
    proof (cases "route \<noteq> []")
      case ne: True
      from add_route_nodes[OF "1.prems"(2) _ dep, of route] nodes
      have ar: "\<forall>r\<in>set (routes (add_route (depot inst) route s)). set r \<subseteq> N" by blast
      from "1.hyps"(1)[OF True br[symmetric, THEN sym] refl ne _ ar D dep] nodes
      show ?thesis using True br ne by (simp add: unfold add_route_def)
    next
      case e: False
      with build_route_shape[OF br] have "mset u1 = mset u" by simp
      with True have "u1 \<noteq> []" by auto
      then obtain first remaining where u1: "u1 = first # remaining" by (cases u1) auto
      have sr: "set_remove first u1 = Inr remaining" by (simp add: set_remove_def u1)
      let ?s1 = "add_route (depot inst) ([depot inst] @ [first] @ [depot inst]) s"
      from nodes u1 have fN: "first \<in> N" "set remaining \<subseteq> N" by auto
      from add_route_nodes[OF "1.prems"(2) _ dep, of "[depot inst] @ [first] @ [depot inst]"]
        fN dep
      have ar: "\<forall>r\<in>set (routes ?s1). set r \<subseteq> N" by simp
      from "1.hyps"(2)[OF True br[symmetric, THEN sym] refl e u1 sr fN(2) ar D dep]
      show ?thesis using True br e u1 sr by (simp add: unfold add_route_def)
    qed
  qed
qed

lemma routes_distances_defined:
  assumes D: "\<forall>a\<in>N. \<forall>b\<in>N. \<exists>d. get_distance inst a b 0 = Inr d"
    and "\<forall>r\<in>set rs. set r \<subseteq> N"
  shows "distances_defined inst rs"
proof -
  have "route_distances_defined inst r" if "set r \<subseteq> N" for r
  proof -
    have "a \<in> N \<and> b \<in> N" if "(a, b) \<in> set (zip r (tl r))" for a b
      using that \<open>set r \<subseteq> N\<close> set_zip_leftD[of a b r "tl r"] set_zip_rightD[of a b r "tl r"]
        list.set_sel(2)[of r b] by (cases r) auto
    with D show ?thesis
      by (fastforce simp: route_distances_defined_def list_all_iff)
  qed
  with assms(2) show ?thesis by (simp add: distances_defined_def list_all_iff)
qed

lemma nodes_defined_iff:
  "nodes_defined inst ns \<longleftrightarrow> (\<forall>a\<in>set ns. \<forall>b\<in>set ns. \<exists>d. get_distance inst a b 0 = Inr d)"
proof -
  have "(\<not> isl x) = (\<exists>d. x = Inr d)" for x :: "error + real"
    by (cases x) auto
  then show ?thesis by (simp add: nodes_defined_def list_all_iff)
qed

lemma construct_defined:
  assumes "nodes_defined inst (depot inst # unvisited0)"
  shows "\<exists>sol. construct inst unvisited0 = Inr sol \<and> sol_instance sol = Some inst
               \<and> calculate_cost sol = Inr (total_cost sol, sol)"
proof -
  let ?N = "set (depot inst # unvisited0)"
  from assms have D: "\<forall>a\<in>?N. \<forall>b\<in>?N. \<exists>d. get_distance inst a b 0 = Inr d"
    by (simp only: nodes_defined_iff)
  have dep: "depot inst \<in> ?N" and sub: "set unvisited0 \<subseteq> ?N" by auto
  have r0: "\<forall>r\<in>set (routes (new_solution (Some inst))). set r \<subseteq> ?N"
    by (simp add: new_solution_def)
  from construct_vehicles_defined[OF D dep sub r0, of 0] obtain s1 u1 where
    v: "construct_vehicles inst (new_solution (Some inst), unvisited0, 0) = Inr (s1, u1)"
    and n1: "set u1 \<subseteq> ?N" "\<forall>r\<in>set (routes s1). set r \<subseteq> ?N"
    and i1: "sol_instance s1 = Some inst" by (auto simp: new_solution_def)
  from construct_extra_defined[OF D dep n1] obtain s2 u2 where
    e: "construct_extra inst (s1, u1) = Inr (s2, u2)"
    and n2: "\<forall>r\<in>set (routes s2). set r \<subseteq> ?N"
    and i2: "sol_instance s2 = Some inst" using i1 by auto
  from calculate_cost_value[OF i2 routes_distances_defined[OF D n2]] obtain s3 where
    "calculate_cost s2 = Inr (consecutive_distance_sum inst (routes s2), s3)"
    "sol_instance s3 = Some inst"
    "total_cost s3 = consecutive_distance_sum inst (routes s2)"
    "calculate_cost s3 = Inr (consecutive_distance_sum inst (routes s2), s3)"
    using i2 by auto
  with v e show ?thesis by (auto simp: construct_def)
qed

lemma tight_construct:
  "\<exists>sol. construct tight_instance [1, 2] = Inr sol \<and> routes sol = [[0, 1, 0], [0, 2, 0]]"
proof -
  have b1: "build_route tight_instance [1, 2] 0 = Inr ([0, 1, 0], [2])"
    by (simp add: build_route_def build_route_loop.simps set_remove_def)
  have b2: "build_route tight_instance [2] (Suc 0) = Inr ([], [2])"
    by (simp add: build_route_def build_route_loop.simps set_remove_def)
  have v: "construct_vehicles tight_instance (new_solution (Some tight_instance), [1, 2], 0)
        = Inr (add_route 0 [0, 1, 0] (new_solution (Some tight_instance)), [2])"
    by (simp add: construct_vehicles.simps b1 remove_visited_def)
  have r1: "routes (add_route 0 [0, 1, 0] (new_solution (Some tight_instance))) = [[0, 1, 0]]"
    by (simp add: add_route_def new_solution_def normalize_route_def)
  have e: "construct_extra tight_instance
             (add_route 0 [0, 1, 0] (new_solution (Some tight_instance)), [2])
        = Inr (add_route 0 [0, 2, 0] (add_route 0 [0, 1, 0] (new_solution (Some tight_instance))), [])"
    by (simp add: construct_extra.simps r1 b2 set_remove_def)
  have r2: "routes (add_route 0 [0, 2, 0] (add_route 0 [0, 1, 0] (new_solution (Some tight_instance))))
     = [[0, 1, 0], [0, 2, 0]]"
    by (simp add: add_route_def new_solution_def normalize_route_def)
  have i2: "sol_instance (add_route 0 [0, 2, 0] (add_route 0 [0, 1, 0]
              (new_solution (Some tight_instance)))) = Some tight_instance"
    by (simp add: add_route_def new_solution_def)
  have "distances_defined tight_instance [[0, 1, 0], [0, 2, 0]]"
    by (simp add: distances_defined_def route_distances_defined_def)
  with calculate_cost_value[OF i2] r2 show ?thesis
    by (auto simp: construct_def v e)
qed

text \<open>
  C6.  \<open>construct\<close> returns a solution whenever \<open>get_distance\<close> is defined between the
  nodes of the instance, and in the solution it returns every customer (every key of the
  demand dictionary other than the depot) is in exactly one route and occurs there exactly
  once; the routes hold no other node than the depot and the customers.  This includes
  the routes built after the configured vehicles are used up and the forced
  single-customer routes.  The demand of the depot plays no part.
\<close>

theorem construct_serves_every_customer_once:
  assumes "unvisited_order inst unvisited0"
  shows "(nodes_defined inst (depot inst # unvisited0) \<longrightarrow>
            (\<exists>sol. construct inst unvisited0 = Inr sol))
       \<and> (\<forall>sol. construct inst unvisited0 = Inr sol \<longrightarrow>
            (\<forall>c\<in>dom (demands inst) - {depot inst}. served_exactly_once (routes sol) c)
          \<and> (\<forall>c\<in>set (concat (routes sol)). c = depot inst \<or> c \<in> dom (demands inst)))"
proof -
  from assms have u: "distinct unvisited0" "set unvisited0 = dom (demands inst) - {depot inst}"
    by (simp_all add: unvisited_order_def)
  have served: "served_exactly_once (routes sol) c"
    if run: "construct inst unvisited0 = Inr sol" and c: "c \<in> dom (demands inst) - {depot inst}"
    for sol c
  proof -
    from c u have "count (mset unvisited0) c = 1" and ne: "c \<noteq> depot inst"
      by (simp_all add: distinct_count_atmost_1)
    with construct_customers[OF assms run]
    have "count_list (customers_of (depot inst) (routes sol)) c = 1"
      by (simp add: count_mset[symmetric])
    with ne have "count_list (concat (routes sol)) c = 1"
      by (simp add: customers_of_def count_list_filter_neq)
    then show ?thesis by (rule count_one_served_once)
  qed
  have others: "c = depot inst \<or> c \<in> dom (demands inst)"
    if run: "construct inst unvisited0 = Inr sol" and c: "c \<in> set (concat (routes sol))"
    for sol c
  proof (cases "c = depot inst")
    case False
    with c have "c \<in> set (customers_of (depot inst) (routes sol))"
      by (simp add: customers_of_def)
    with construct_customers[OF assms run] have "c \<in> set unvisited0" by (metis mset_eq_setD)
    with u show ?thesis by simp
  qed simp
  from served others construct_defined[of inst unvisited0] show ?thesis by blast
qed

theorem construct_serves_every_customer_once_witness:
  "unvisited_order tight_instance [1, 2]
   \<and> nodes_defined tight_instance (depot tight_instance # [1, 2])
   \<and> (\<exists>sol. construct tight_instance [1, 2] = Inr sol
          \<and> routes sol = [[0, 1, 0], [0, 2, 0]]
          \<and> served_exactly_once (routes sol) 1 \<and> served_exactly_once (routes sol) 2)"
proof -
  have o: "unvisited_order tight_instance [1, 2]"
    by (auto simp: unvisited_order_def tight_instance_def)
  have d: "dom (demands tight_instance) - {depot tight_instance} = {1, 2}"
    by (auto simp: tight_instance_def)
  have n: "nodes_defined tight_instance (depot tight_instance # [1, 2])"
    by (simp add: nodes_defined_def)
  from tight_construct obtain sol where
    sol: "construct tight_instance [1, 2] = Inr sol" "routes sol = [[0, 1, 0], [0, 2, 0]]"
    by blast
  from construct_serves_every_customer_once[OF o] sol(1) d
  have "served_exactly_once (routes sol) 1 \<and> served_exactly_once (routes sol) 2" by simp
  with o n sol show ?thesis by blast
qed

section \<open>Time windows in the greedy construction\<close>

text \<open>
  C3.  The claim is that \<open>_build_route\<close> appends a customer only when its arrival time
  satisfies its time window, and never one whose arrival time is past the latest time.
  On the instance below the only customer has the window \<open>[0, 5]\<close> and lies at distance
  10 from the depot, so the vehicle arrives at time 10, after the window has closed:
  \<open>is_feasible_time_window\<close> is false, the waiting time is 0, which does not exceed 100,
  and the customer is appended all the same.
\<close>

theorem build_route_appends_late_customer:
  "unvisited_order late_instance [1]
   \<and> time_windows late_instance 1 = Some (0, 5)
   \<and> get_distance late_instance (depot late_instance) 1 0 = Inr 10
   \<and> \<not> is_feasible_time_window late_instance 1 (0 + 10)
   \<and> build_route late_instance [1] 0 = Inr ([0, 1, 0], [])"
proof -
  have d: "depot late_instance = 0" "vehicle_capacities late_instance = [20]"
    by (simp_all add: late_instance_def)
  have "build_route_loop late_instance 20 ([0], 0, 0, 0, [1]) = Inr ([0, 1], [])"
    by (simp add: build_route_loop.simps late_find_best late_distance set_remove_def
          late_window service_time_of_def demand_of_def del: find_best.simps)
  then have "build_route late_instance [1] 0 = Inr ([0, 1, 0], [])"
    by (simp add: build_route_def d)
  moreover have "unvisited_order late_instance [1]"
    by (auto simp: unvisited_order_def late_instance_def)
  moreover have "time_windows late_instance 1 = Some (0, 5)"
    by (simp add: late_instance_def)
  ultimately show ?thesis using late_distance late_window d by simp
qed

section \<open>2-opt moves and the tabu list\<close>

lemma is_tabu_move_two_opt: "is_tabu_move entries (TwoOptMove route i j) = False"
proof (induction entries)
  case Nil
  show ?case by simp
next
  case (Cons entry entries)
  obtain d k where "entry = (d, k)" by (cases entry)
  with Cons show ?case by (cases d) (simp_all add: tabu_type_def move_type_def)
qed

lemma two_opt_tries_loop_moves:
  "two_opt_tries_loop rand solution route_idx route tries (moves, move_count) = Inr (moves', count') \<Longrightarrow>
   \<forall>(n, m)\<in>set moves. move_type m = ''2opt'' \<Longrightarrow>
   \<forall>(n, m)\<in>set moves'. move_type m = ''2opt''"
proof (induction tries arbitrary: moves move_count)
  case 0
  then show ?case by simp
next
  case (Suc tries)
  show ?case
  proof (cases "move_count \<ge> 20")
    case True
    with Suc.prems show ?thesis by simp
  next
    case False
    define i where "i = randint 1 (length route - 3) (rand (2 * move_count))"
    define j where "j = randint (i + 1) (length route - 2) (rand (2 * move_count + 1))"
    from Suc.prems(1) False obtain neighbor where
      run: "two_opt_tries_loop rand solution route_idx route tries
              (moves @ [(neighbor, TwoOptMove route_idx i j)], move_count + 1) = Inr (moves', count')"
      by (auto simp: Let_def i_def j_def split: sum.splits)
    have "\<forall>(n, m)\<in>set (moves @ [(neighbor, TwoOptMove route_idx i j)]). move_type m = ''2opt''"
      using Suc.prems(2) by (auto simp: move_type_def)
    from Suc.IH[OF run this] show ?thesis .
  qed
qed

lemma two_opt_route_loop_moves:
  "two_opt_route_loop rand solution rs (moves, move_count) = Inr (moves', count') \<Longrightarrow>
   \<forall>(n, m)\<in>set moves. move_type m = ''2opt'' \<Longrightarrow>
   \<forall>(n, m)\<in>set moves'. move_type m = ''2opt''"
proof (induction rs arbitrary: moves move_count)
  case Nil
  then show ?case by simp
next
  case (Cons r rs)
  obtain route_idx route where r: "r = (route_idx, route)" by (cases r)
  show ?case
  proof (cases "length route < 4 \<or> move_count \<ge> 20")
    case True
    with Cons.prems(1) have "two_opt_route_loop rand solution rs (moves, move_count) = Inr (moves', count')"
      by (simp add: r)
    from Cons.IH[OF this Cons.prems(2)] show ?thesis .
  next
    case False
    with Cons.prems(1) obtain moves1 count1 where
      t: "two_opt_tries_loop rand solution route_idx route (min 5 (length route - 3))
            (moves, move_count) = Inr (moves1, count1)"
      and rest: "two_opt_route_loop rand solution rs (moves1, count1) = Inr (moves', count')"
      by (auto simp: r split: sum.splits)
    from Cons.IH[OF rest two_opt_tries_loop_moves[OF t Cons.prems(2)]] show ?thesis .
  qed
qed

lemma move_type_two_opt: "move_type m = ''2opt'' \<Longrightarrow> \<exists>r i j. m = TwoOptMove r i j"
  by (cases m) (simp_all add: move_type_def)

lemma tour_two_opt:
  "\<exists>neighbor. generate_2opt_moves (\<lambda>n. 0) tour_solution = Inr [(neighbor, TwoOptMove 0 1 2)]
      \<and> routes neighbor = [[0, 2, 1, 0]] \<and> total_cost neighbor = 45"
proof -
  let ?s = "tour_solution\<lparr>routes := [[0, 2, 1, 0]]\<rparr>"
  have i: "sol_instance ?s = Some example_instance"
    by (simp add: tour_solution_def new_solution_def)
  have d: "distances_defined example_instance (routes ?s)"
    by (simp add: distances_defined_def route_distances_defined_def)
  have c: "consecutive_distance_sum example_instance (routes ?s) = 45"
    by (simp add: consecutive_distance_sum_def route_distance_sum_def distance_or_zero_def)
  from calculate_cost_value[OF i d] obtain neighbor where
    n: "calculate_cost ?s = Inr (45, neighbor)" "routes neighbor = [[0, 2, 1, 0]]"
       "total_cost neighbor = 45"
    unfolding c by auto
  have r: "routes tour_solution = [[0, 1, 2, 0]]" by (simp add: tour_solution_def)
  have t: "two_opt_route [0, 1, 2, 0] (Suc 0) (Suc (Suc 0)) = [0, 2, 1, 0]"
    by (simp add: two_opt_route_def slice_def)
  have "generate_2opt_moves (\<lambda>n. 0) tour_solution = Inr [(neighbor, TwoOptMove 0 1 2)]"
    by (simp add: generate_2opt_moves_def r enumerate_list_def randint_def copy_def t n(1))
  with n show ?thesis by blast
qed

text \<open>
  C10.  \<open>_is_tabu_move\<close> returns False for every 2-opt move, whatever the tabu list holds,
  2-opt entries included: the test has a case for swaps and a case for relocates only.
  Every move that \<open>_generate_2opt_moves\<close> returns is a 2-opt move, so none of them is
  tabu, and each passes the test \<open>not is_tabu or aspiration\<close> of \<open>_select_best_move\<close>.
\<close>

theorem two_opt_moves_never_tabu:
  "is_tabu_move entries (TwoOptMove route i j) = False
   \<and> (generate_2opt_moves rand solution = Inr moves \<longrightarrow>
        (\<forall>(neighbor, move)\<in>set moves.
           move_type move = ''2opt'' \<and> \<not> is_tabu_move entries move))"
proof -
  have "move_type m = ''2opt'' \<and> \<not> is_tabu_move entries m"
    if "generate_2opt_moves rand solution = Inr moves" and "(n, m) \<in> set moves" for n m
  proof -
    from that(1) obtain count' where
      "two_opt_route_loop rand solution (enumerate_list (routes solution)) ([], 0) = Inr (moves, count')"
      by (auto simp: generate_2opt_moves_def split: sum.splits)
    from two_opt_route_loop_moves[OF this] that(2) have t: "move_type m = ''2opt''" by auto
    with move_type_two_opt[OF t] show ?thesis by (auto simp: is_tabu_move_two_opt)
  qed
  then show ?thesis using is_tabu_move_two_opt by blast
qed

theorem two_opt_moves_never_tabu_witness:
  "\<exists>neighbor. generate_2opt_moves (\<lambda>n. 0) tour_solution = Inr [(neighbor, TwoOptMove 0 1 2)]
      \<and> reverse_move (TwoOptMove 0 1 2) = TwoOptData 0 1 2
      \<and> move_type (TwoOptMove 0 1 2) = ''2opt''
      \<and> \<not> is_tabu_move [(TwoOptData 0 1 2, 7)] (TwoOptMove 0 1 2)"
proof -
  from tour_two_opt obtain neighbor where
    g: "generate_2opt_moves (\<lambda>n. 0) tour_solution = Inr [(neighbor, TwoOptMove 0 1 2)]"
    by blast
  have r: "reverse_move (TwoOptMove 0 1 2) = TwoOptData 0 1 2"
    by (simp add: reverse_move_def)
  have m: "(neighbor, TwoOptMove 0 1 2) \<in> set [(neighbor, TwoOptMove 0 1 2)]" by simp
  note inst = two_opt_moves_never_tabu[of "[(TwoOptData 0 1 2, 7)]" 0 1 2 "\<lambda>n. 0"
      tour_solution "[(neighbor, TwoOptMove 0 1 2)]"]
  from inst g m have "move_type (TwoOptMove 0 1 2) = ''2opt''
        \<and> \<not> is_tabu_move [(TwoOptData 0 1 2, 7)] (TwoOptMove 0 1 2)" by blast
  with g r show ?thesis by blast
qed

section \<open>Relocate moves and the tabu list\<close>

text \<open>
  C2.  The claim is that, after a relocate of customer \<open>c\<close> from route \<open>A\<close> to route \<open>B\<close>
  has been applied and stored reversed (as \<open>B \<rightarrow> A\<close>), a later relocate of \<open>c\<close> from \<open>B\<close> to
  \<open>A\<close> is tabu.  \<open>_update_tabu_list\<close> stores the reversed move, and \<open>_is_tabu_move\<close>
  compares the stored \<open>from_route\<close> with the candidate's \<open>to_route\<close> and the stored
  \<open>to_route\<close> with the candidate's \<open>from_route\<close>, which reverses the direction a second
  time.  With customer 5 moved from route 0 to route 1 at iteration 0, the entry is
  \<open>(5, 1 \<rightarrow> 0)\<close>; the move back, 5 from route 1 to route 0, is not tabu, and the move that
  was applied, 5 from route 0 to route 1, is.
\<close>

theorem reverse_relocate_not_tabu:
  "update_tabu_list 20 (RelocateMove 5 0 1 1 1) 0 [] = [(RelocateData 5 1 0, 0)]
   \<and> is_tabu_move [(RelocateData 5 1 0, 0)] (RelocateMove 5 1 0 1 1) = False
   \<and> is_tabu_move [(RelocateData 5 1 0, 0)] (RelocateMove 5 0 1 1 1) = True"
  by (simp add: update_tabu_list_def reverse_move_def tabu_type_def move_type_def)

section \<open>The selection of a move under the tabu list\<close>

text \<open>
  The membership test of the specification.  A swap move matches an entry that holds the
  same unordered pair of customers; a relocate move matches an entry that holds the same
  customer and the same pair of routes in the same direction.  The entry is what
  \<open>_update_tabu_list\<close> recorded: the inverse of the move that was applied.
\<close>

fun spec_matches :: "tabu_data \<Rightarrow> move_info \<Rightarrow> bool" where
  "spec_matches (SwapData tabu_customer1 tabu_customer2) (SwapMove customer1 customer2 route1 route2) =
     ({tabu_customer1, tabu_customer2} = {customer1, customer2})"
| "spec_matches (RelocateData tabu_customer tabu_from_route tabu_to_route)
     (RelocateMove customer from_route to_route from_pos to_pos) =
     (tabu_customer = customer \<and> tabu_from_route = from_route \<and> tabu_to_route = to_route)"
| "spec_matches tabu_data move = False"

text \<open>
  Two customers at distance 10 on opposite sides of the depot, each with demand 15, and two
  vehicles of capacity 20: the greedy construction gives each customer a route of its own,
  and every solution that the search visits costs 40.
\<close>

definition opposite_instance :: VRPInstance where
  "opposite_instance =
     \<lparr> capacity = 20, depot = 0, node_coords = Map.empty,
       demands = [0 \<mapsto> 0, 1 \<mapsto> 15, 2 \<mapsto> 15],
       distance_matrix = Some [[0, 10, 10], [10, 0, 20], [10, 20, 0]],
       time_windows = Map.empty, service_times = Map.empty, vehicle_count = 2,
       vehicle_capacities = [20, 20], dynamic_distances = [] \<rparr>"

text \<open>A tabu search on that instance that stops after \<open>n\<close> iterations.\<close>

definition short_tabu :: "int \<Rightarrow> TabuSearch" where
  "short_tabu n = (new_tabu_search opposite_instance)\<lparr>ts_max_iterations := n\<rparr>"

text \<open>
  The solution \<open>s\<close> with the routes \<open>rs\<close>, after \<open>calculate_cost\<close>: what the neighbourhood
  generators build from a copy of \<open>s\<close>.
\<close>

definition costed :: "Solution \<Rightarrow> int list list \<Rightarrow> Solution" where
  "costed s rs =
     (case calculate_cost (s\<lparr>routes := rs\<rparr>) of
        Inl e \<Rightarrow> s\<lparr>routes := rs\<rparr>
      | Inr (c, s') \<Rightarrow> s')"

lemma costed_eval:
  assumes "sol_instance s = Some inst" and "distances_defined inst rs"
  shows "calculate_cost (s\<lparr>routes := rs\<rparr>) = Inr (consecutive_distance_sum inst rs, costed s rs)"
    and "routes (costed s rs) = rs"
    and "sol_instance (costed s rs) = Some inst"
    and "total_cost (costed s rs) = consecutive_distance_sum inst rs"
    and "calculate_cost (costed s rs) = Inr (consecutive_distance_sum inst rs, costed s rs)"
proof -
  have i: "sol_instance (s\<lparr>routes := rs\<rparr>) = Some inst" using assms(1) by simp
  have d: "distances_defined inst (routes (s\<lparr>routes := rs\<rparr>))" using assms(2) by simp
  from calculate_cost_value[OF i d] obtain s' where
    s': "calculate_cost (s\<lparr>routes := rs\<rparr>) = Inr (consecutive_distance_sum inst rs, s')"
    "routes s' = rs" "sol_instance s' = Some inst"
    "total_cost s' = consecutive_distance_sum inst rs"
    "calculate_cost s' = Inr (consecutive_distance_sum inst rs, s')"
    using assms(1) by auto
  then have c: "costed s rs = s'" by (simp add: costed_def)
  from s' show "calculate_cost (s\<lparr>routes := rs\<rparr>) = Inr (consecutive_distance_sum inst rs, costed s rs)"
    "routes (costed s rs) = rs" "sol_instance (costed s rs) = Some inst"
    "total_cost (costed s rs) = consecutive_distance_sum inst rs"
    "calculate_cost (costed s rs) = Inr (consecutive_distance_sum inst rs, costed s rs)"
    unfolding c by simp_all
qed

lemma costed_routes_update:
  "calculate_cost ((costed s rs)\<lparr>routes := rs'\<rparr>) = calculate_cost (s\<lparr>routes := rs'\<rparr>)"
  by (auto simp: costed_def calculate_cost_def split: sum.splits option.splits)

lemma costed_neighbor:
  assumes "sol_instance s = Some inst" and "distances_defined inst rs'"
  shows "calculate_cost ((costed s rs)\<lparr>routes := rs'\<rparr>)
           = Inr (consecutive_distance_sum inst rs', costed s rs')"
  using costed_eval(1)[OF assms] by (simp add: costed_routes_update)

text \<open>The solution of the instance above with the routes \<open>rs\<close>, after \<open>calculate_cost\<close>.\<close>

definition opposite_at :: "int list list \<Rightarrow> Solution" where
  "opposite_at rs = costed (new_solution (Some opposite_instance)) rs"

lemma opposite_distance [simp]:
  "get_distance opposite_instance 0 0 0 = Inr 0"
  "get_distance opposite_instance 0 1 0 = Inr 10"
  "get_distance opposite_instance 0 2 0 = Inr 10"
  "get_distance opposite_instance 1 0 0 = Inr 10"
  "get_distance opposite_instance 1 1 0 = Inr 0"
  "get_distance opposite_instance 1 2 0 = Inr 20"
  "get_distance opposite_instance 2 0 0 = Inr 10"
  "get_distance opposite_instance 2 1 0 = Inr 20"
  "get_distance opposite_instance 2 2 0 = Inr 0"
  by (simp_all add: get_distance_def opposite_instance_def py_get_def)

lemma opposite_fields [simp]:
  "depot opposite_instance = 0" "capacity opposite_instance = 20"
  "vehicle_capacities opposite_instance = [20, 20]" "vehicle_count opposite_instance = 2"
  "demand_of opposite_instance 1 = 15" "demand_of opposite_instance 2 = 15"
  "is_feasible_time_window opposite_instance c t"
  "get_waiting_time opposite_instance c t = 0" "service_time_of opposite_instance c = 0"
  by (simp_all add: opposite_instance_def demand_of_def is_feasible_time_window_def
        get_waiting_time_def service_time_of_def)

lemma opposite_at_neighbor:
  "distances_defined opposite_instance rs' \<Longrightarrow>
   calculate_cost ((opposite_at rs)\<lparr>routes := rs'\<rparr>)
     = Inr (consecutive_distance_sum opposite_instance rs', opposite_at rs')"
  unfolding opposite_at_def by (rule costed_neighbor) (simp_all add: new_solution_def)

lemma opposite_at_eval:
  assumes "distances_defined opposite_instance rs"
  shows "routes (opposite_at rs) = rs"
    and "total_cost (opposite_at rs) = consecutive_distance_sum opposite_instance rs"
    and "calculate_cost (opposite_at rs)
           = Inr (consecutive_distance_sum opposite_instance rs, opposite_at rs)"
  unfolding opposite_at_def
  using costed_eval(2,4,5)[of "new_solution (Some opposite_instance)" opposite_instance rs] assms
  by (simp_all add: new_solution_def)

lemma opposite_construct:
  "construct opposite_instance [1, 2] = Inr (opposite_at [[0, 1, 0], [0, 2, 0]])"
proof -
  let ?b = "new_solution (Some opposite_instance)"
  have b1: "build_route opposite_instance [1, 2] 0 = Inr ([0, 1, 0], [2])"
    by (simp add: build_route_def build_route_loop.simps set_remove_def)
  have b2: "build_route opposite_instance [2] (Suc 0) = Inr ([0, 2, 0], [])"
    by (simp add: build_route_def build_route_loop.simps set_remove_def)
  have a1: "add_route 0 [0, 1, 0] ?b = ?b\<lparr>routes := [[0, 1, 0]]\<rparr>"
    by (simp add: add_route_def new_solution_def normalize_route_def)
  have a2: "add_route 0 [0, 2, 0] (?b\<lparr>routes := [[0, 1, 0]]\<rparr>)
              = ?b\<lparr>routes := [[0, 1, 0], [0, 2, 0]]\<rparr>"
    by (simp add: add_route_def new_solution_def normalize_route_def)
  have v: "construct_vehicles opposite_instance (?b, [1, 2], 0)
        = Inr (?b\<lparr>routes := [[0, 1, 0], [0, 2, 0]]\<rparr>, [])"
    by (simp add: construct_vehicles.simps b1 b2 a1 a2 remove_visited_def)
  have e: "construct_extra opposite_instance (?b\<lparr>routes := [[0, 1, 0], [0, 2, 0]]\<rparr>, [])
        = Inr (?b\<lparr>routes := [[0, 1, 0], [0, 2, 0]]\<rparr>, [])"
    by (simp add: construct_extra.simps)
  have d: "distances_defined opposite_instance [[0, 1, 0], [0, 2, 0]]"
    by (simp add: distances_defined_def route_distances_defined_def)
  have i: "sol_instance ?b = Some opposite_instance" by (simp add: new_solution_def)
  from costed_eval(1)[OF i d] show ?thesis
    by (simp add: construct_def v e opposite_at_def)
qed

lemmas opposite_eval =
  opposite_at_neighbor opposite_at_eval distances_defined_def route_distances_defined_def
  consecutive_distance_sum_def route_distance_sum_def distance_or_zero_def copy_def

lemmas neighborhood_eval =
  generate_neighborhood_def generate_swap_moves_def generate_relocate_moves_def
  generate_2opt_moves_def relocate_neighbor_def all_customers_def enumerate_list_def
  set_item_def list_pop_def list_insert_def two_opt_route_def slice_def randint_def
  fixed_tabu_draws_def Let_def

lemma short_tabu_fields [simp]:
  "ts_max_iterations (short_tabu n) = n" "max_no_improvement (short_tabu n) = 200"
  "tabu_tenure (short_tabu n) = 20" "tabu_list (short_tabu n) = []"
  "ts_stats (short_tabu n) = new_ts_stats" "ts_instance (short_tabu n) = opposite_instance"
  by (simp_all add: short_tabu_def new_tabu_search_def)

lemma opposite_step_0:
  assumes "0 < n"
  shows "tabu_loop (short_tabu n) fixed_tabu_draws
           \<lparr> ts_current_solution = opposite_at [[0, 1, 0], [0, 2, 0]],
             ts_best_solution = opposite_at [[0, 1, 0], [0, 2, 0]],
             ts_iteration = 0, no_improvement_count = 0, ts_tabu_list = [],
             ts_run_stats = new_ts_stats \<rparr>
       = tabu_loop (short_tabu n) fixed_tabu_draws
           \<lparr> ts_current_solution = opposite_at [[0, 2, 0], [0, 1, 0]],
             ts_best_solution = opposite_at [[0, 1, 0], [0, 2, 0]],
             ts_iteration = Suc 0, no_improvement_count = Suc 0,
             ts_tabu_list = [(SwapData 2 1, 0)],
             ts_run_stats =
               \<lparr> ts_iterations = 0, ts_best_cost_history = [40],
                 ts_current_cost_history = [40], tabu_violations = 0,
                 aspiration_acceptances = 0 \<rparr> \<rparr>"
  unfolding tabu_loop.simps[of "short_tabu n" fixed_tabu_draws
      "\<lparr> ts_current_solution = opposite_at [[0, 1, 0], [0, 2, 0]],
             ts_best_solution = opposite_at [[0, 1, 0], [0, 2, 0]],
             ts_iteration = 0, no_improvement_count = 0, ts_tabu_list = [],
             ts_run_stats = new_ts_stats \<rparr>"]
  using assms
  by (simp add: opposite_eval neighborhood_eval select_best_move_def update_tabu_list_def
      reverse_move_def new_ts_stats_def tabu_type_def move_type_def)

lemma opposite_step_1:
  assumes "1 < n"
  shows "tabu_loop (short_tabu n) fixed_tabu_draws
           \<lparr> ts_current_solution = opposite_at [[0, 2, 0], [0, 1, 0]],
             ts_best_solution = opposite_at [[0, 1, 0], [0, 2, 0]],
             ts_iteration = Suc 0, no_improvement_count = Suc 0,
             ts_tabu_list = [(SwapData 2 1, 0)],
             ts_run_stats =
               \<lparr> ts_iterations = 0, ts_best_cost_history = [40],
                 ts_current_cost_history = [40], tabu_violations = 0,
                 aspiration_acceptances = 0 \<rparr> \<rparr>
       = tabu_loop (short_tabu n) fixed_tabu_draws
           \<lparr> ts_current_solution = opposite_at [[0, 2, 0], [0, 1, 0]],
             ts_best_solution = opposite_at [[0, 1, 0], [0, 2, 0]],
             ts_iteration = Suc (Suc 0), no_improvement_count = Suc (Suc 0),
             ts_tabu_list = [(SwapData 2 1, 0), (RelocateData 2 0 0, Suc 0)],
             ts_run_stats =
               \<lparr> ts_iterations = 0, ts_best_cost_history = [40, 40],
                 ts_current_cost_history = [40, 40], tabu_violations = Suc 0,
                 aspiration_acceptances = 0 \<rparr> \<rparr>"
  unfolding tabu_loop.simps[of "short_tabu n" fixed_tabu_draws
      "\<lparr> ts_current_solution = opposite_at [[0, 2, 0], [0, 1, 0]],
             ts_best_solution = opposite_at [[0, 1, 0], [0, 2, 0]],
             ts_iteration = Suc 0, no_improvement_count = Suc 0,
             ts_tabu_list = [(SwapData 2 1, 0)],
             ts_run_stats =
               \<lparr> ts_iterations = 0, ts_best_cost_history = [40],
                 ts_current_cost_history = [40], tabu_violations = 0,
                 aspiration_acceptances = 0 \<rparr> \<rparr>"]
  using assms
  by (simp add: opposite_eval neighborhood_eval select_best_move_def update_tabu_list_def
      reverse_move_def tabu_type_def move_type_def)

lemma opposite_step_2:
  assumes "2 < n"
  shows "tabu_loop (short_tabu n) fixed_tabu_draws
           \<lparr> ts_current_solution = opposite_at [[0, 2, 0], [0, 1, 0]],
             ts_best_solution = opposite_at [[0, 1, 0], [0, 2, 0]],
             ts_iteration = Suc (Suc 0), no_improvement_count = Suc (Suc 0),
             ts_tabu_list = [(SwapData 2 1, 0), (RelocateData 2 0 0, Suc 0)],
             ts_run_stats =
               \<lparr> ts_iterations = 0, ts_best_cost_history = [40, 40],
                 ts_current_cost_history = [40, 40], tabu_violations = Suc 0,
                 aspiration_acceptances = 0 \<rparr> \<rparr>
       = tabu_loop (short_tabu n) fixed_tabu_draws
           \<lparr> ts_current_solution = opposite_at [[0, 0], [0, 2, 1, 0]],
             ts_best_solution = opposite_at [[0, 1, 0], [0, 2, 0]],
             ts_iteration = Suc (Suc (Suc 0)), no_improvement_count = Suc (Suc (Suc 0)),
             ts_tabu_list = [(SwapData 2 1, 0), (RelocateData 2 0 0, Suc 0), (RelocateData 2 (Suc 0) 0, Suc (Suc 0))],
             ts_run_stats =
               \<lparr> ts_iterations = 0, ts_best_cost_history = [40, 40, 40],
                 ts_current_cost_history = [40, 40, 40], tabu_violations = Suc (Suc (Suc (Suc 0))),
                 aspiration_acceptances = 0 \<rparr> \<rparr>"
  unfolding tabu_loop.simps[of "short_tabu n" fixed_tabu_draws
      "\<lparr> ts_current_solution = opposite_at [[0, 2, 0], [0, 1, 0]],
             ts_best_solution = opposite_at [[0, 1, 0], [0, 2, 0]],
             ts_iteration = Suc (Suc 0), no_improvement_count = Suc (Suc 0),
             ts_tabu_list = [(SwapData 2 1, 0), (RelocateData 2 0 0, Suc 0)],
             ts_run_stats =
               \<lparr> ts_iterations = 0, ts_best_cost_history = [40, 40],
                 ts_current_cost_history = [40, 40], tabu_violations = Suc 0,
                 aspiration_acceptances = 0 \<rparr> \<rparr>"]
  using assms
  by (simp add: opposite_eval neighborhood_eval select_best_move_def update_tabu_list_def
      reverse_move_def tabu_type_def move_type_def)

lemma opposite_step_3:
  assumes "3 < n"
  shows "tabu_loop (short_tabu n) fixed_tabu_draws
           \<lparr> ts_current_solution = opposite_at [[0, 0], [0, 2, 1, 0]],
             ts_best_solution = opposite_at [[0, 1, 0], [0, 2, 0]],
             ts_iteration = Suc (Suc (Suc 0)), no_improvement_count = Suc (Suc (Suc 0)),
             ts_tabu_list = [(SwapData 2 1, 0), (RelocateData 2 0 0, Suc 0), (RelocateData 2 (Suc 0) 0, Suc (Suc 0))],
             ts_run_stats =
               \<lparr> ts_iterations = 0, ts_best_cost_history = [40, 40, 40],
                 ts_current_cost_history = [40, 40, 40], tabu_violations = Suc (Suc (Suc (Suc 0))),
                 aspiration_acceptances = 0 \<rparr> \<rparr>
       = tabu_loop (short_tabu n) fixed_tabu_draws
           \<lparr> ts_current_solution = opposite_at [[0, 2, 0], [0, 1, 0]],
             ts_best_solution = opposite_at [[0, 1, 0], [0, 2, 0]],
             ts_iteration = Suc (Suc (Suc (Suc 0))), no_improvement_count = Suc (Suc (Suc (Suc 0))),
             ts_tabu_list = [(SwapData 2 1, 0), (RelocateData 2 0 0, Suc 0), (RelocateData 2 (Suc 0) 0, Suc (Suc 0)),
              (RelocateData 2 0 (Suc 0), Suc (Suc (Suc 0)))],
             ts_run_stats =
               \<lparr> ts_iterations = 0, ts_best_cost_history = [40, 40, 40, 40],
                 ts_current_cost_history = [40, 40, 40, 40], tabu_violations = Suc (Suc (Suc (Suc (Suc 0)))),
                 aspiration_acceptances = 0 \<rparr> \<rparr>"
  unfolding tabu_loop.simps[of "short_tabu n" fixed_tabu_draws
      "\<lparr> ts_current_solution = opposite_at [[0, 0], [0, 2, 1, 0]],
             ts_best_solution = opposite_at [[0, 1, 0], [0, 2, 0]],
             ts_iteration = Suc (Suc (Suc 0)), no_improvement_count = Suc (Suc (Suc 0)),
             ts_tabu_list = [(SwapData 2 1, 0), (RelocateData 2 0 0, Suc 0), (RelocateData 2 (Suc 0) 0, Suc (Suc 0))],
             ts_run_stats =
               \<lparr> ts_iterations = 0, ts_best_cost_history = [40, 40, 40],
                 ts_current_cost_history = [40, 40, 40], tabu_violations = Suc (Suc (Suc (Suc 0))),
                 aspiration_acceptances = 0 \<rparr> \<rparr>"]
  using assms
  by (simp add: opposite_eval neighborhood_eval select_best_move_def update_tabu_list_def
      reverse_move_def tabu_type_def move_type_def)

lemma opposite_stop_3:
  "tabu_loop (short_tabu 3) fixed_tabu_draws
           \<lparr> ts_current_solution = opposite_at [[0, 0], [0, 2, 1, 0]],
             ts_best_solution = opposite_at [[0, 1, 0], [0, 2, 0]],
             ts_iteration = Suc (Suc (Suc 0)), no_improvement_count = Suc (Suc (Suc 0)),
             ts_tabu_list = [(SwapData 2 1, 0), (RelocateData 2 0 0, Suc 0), (RelocateData 2 (Suc 0) 0, Suc (Suc 0))],
             ts_run_stats =
               \<lparr> ts_iterations = 0, ts_best_cost_history = [40, 40, 40],
                 ts_current_cost_history = [40, 40, 40], tabu_violations = Suc (Suc (Suc (Suc 0))),
                 aspiration_acceptances = 0 \<rparr> \<rparr>
   = Inr \<lparr> ts_current_solution = opposite_at [[0, 0], [0, 2, 1, 0]],
             ts_best_solution = opposite_at [[0, 1, 0], [0, 2, 0]],
             ts_iteration = Suc (Suc (Suc 0)), no_improvement_count = Suc (Suc (Suc 0)),
             ts_tabu_list = [(SwapData 2 1, 0), (RelocateData 2 0 0, Suc 0), (RelocateData 2 (Suc 0) 0, Suc (Suc 0))],
             ts_run_stats =
               \<lparr> ts_iterations = 0, ts_best_cost_history = [40, 40, 40],
                 ts_current_cost_history = [40, 40, 40], tabu_violations = Suc (Suc (Suc (Suc 0))),
                 aspiration_acceptances = 0 \<rparr> \<rparr>"
  unfolding tabu_loop.simps[of "short_tabu 3" fixed_tabu_draws
      "\<lparr> ts_current_solution = opposite_at [[0, 0], [0, 2, 1, 0]],
             ts_best_solution = opposite_at [[0, 1, 0], [0, 2, 0]],
             ts_iteration = Suc (Suc (Suc 0)), no_improvement_count = Suc (Suc (Suc 0)),
             ts_tabu_list = [(SwapData 2 1, 0), (RelocateData 2 0 0, Suc 0), (RelocateData 2 (Suc 0) 0, Suc (Suc 0))],
             ts_run_stats =
               \<lparr> ts_iterations = 0, ts_best_cost_history = [40, 40, 40],
                 ts_current_cost_history = [40, 40, 40], tabu_violations = Suc (Suc (Suc (Suc 0))),
                 aspiration_acceptances = 0 \<rparr> \<rparr>"]
  by simp

lemma opposite_stop_4:
  "tabu_loop (short_tabu 4) fixed_tabu_draws
           \<lparr> ts_current_solution = opposite_at [[0, 2, 0], [0, 1, 0]],
             ts_best_solution = opposite_at [[0, 1, 0], [0, 2, 0]],
             ts_iteration = Suc (Suc (Suc (Suc 0))), no_improvement_count = Suc (Suc (Suc (Suc 0))),
             ts_tabu_list = [(SwapData 2 1, 0), (RelocateData 2 0 0, Suc 0), (RelocateData 2 (Suc 0) 0, Suc (Suc 0)),
              (RelocateData 2 0 (Suc 0), Suc (Suc (Suc 0)))],
             ts_run_stats =
               \<lparr> ts_iterations = 0, ts_best_cost_history = [40, 40, 40, 40],
                 ts_current_cost_history = [40, 40, 40, 40], tabu_violations = Suc (Suc (Suc (Suc (Suc 0)))),
                 aspiration_acceptances = 0 \<rparr> \<rparr>
   = Inr \<lparr> ts_current_solution = opposite_at [[0, 2, 0], [0, 1, 0]],
             ts_best_solution = opposite_at [[0, 1, 0], [0, 2, 0]],
             ts_iteration = Suc (Suc (Suc (Suc 0))), no_improvement_count = Suc (Suc (Suc (Suc 0))),
             ts_tabu_list = [(SwapData 2 1, 0), (RelocateData 2 0 0, Suc 0), (RelocateData 2 (Suc 0) 0, Suc (Suc 0)),
              (RelocateData 2 0 (Suc 0), Suc (Suc (Suc 0)))],
             ts_run_stats =
               \<lparr> ts_iterations = 0, ts_best_cost_history = [40, 40, 40, 40],
                 ts_current_cost_history = [40, 40, 40, 40], tabu_violations = Suc (Suc (Suc (Suc (Suc 0)))),
                 aspiration_acceptances = 0 \<rparr> \<rparr>"
  unfolding tabu_loop.simps[of "short_tabu 4" fixed_tabu_draws
      "\<lparr> ts_current_solution = opposite_at [[0, 2, 0], [0, 1, 0]],
             ts_best_solution = opposite_at [[0, 1, 0], [0, 2, 0]],
             ts_iteration = Suc (Suc (Suc (Suc 0))), no_improvement_count = Suc (Suc (Suc (Suc 0))),
             ts_tabu_list = [(SwapData 2 1, 0), (RelocateData 2 0 0, Suc 0), (RelocateData 2 (Suc 0) 0, Suc (Suc 0)),
              (RelocateData 2 0 (Suc 0), Suc (Suc (Suc 0)))],
             ts_run_stats =
               \<lparr> ts_iterations = 0, ts_best_cost_history = [40, 40, 40, 40],
                 ts_current_cost_history = [40, 40, 40, 40], tabu_violations = Suc (Suc (Suc (Suc (Suc 0)))),
                 aspiration_acceptances = 0 \<rparr> \<rparr>"]
  by simp

lemma opposite_start_cost:
  "calculate_cost (opposite_at [[0, 1, 0], [0, 2, 0]]) = Inr (40, opposite_at [[0, 1, 0], [0, 2, 0]])"
  "routes (opposite_at [[0, 1, 0], [0, 2, 0]]) = [[0, 1, 0], [0, 2, 0]]"
  "total_cost (opposite_at [[0, 1, 0], [0, 2, 0]]) = 40"
  by (simp_all add: opposite_eval)

lemma opposite_run_3:
  "tabu_run (short_tabu 3) fixed_tabu_draws (opposite_at [[0, 1, 0], [0, 2, 0]])
   = Inr \<lparr> ts_current_solution = opposite_at [[0, 0], [0, 2, 1, 0]],
             ts_best_solution = opposite_at [[0, 1, 0], [0, 2, 0]],
             ts_iteration = Suc (Suc (Suc 0)), no_improvement_count = Suc (Suc (Suc 0)),
             ts_tabu_list = [(SwapData 2 1, 0), (RelocateData 2 0 0, Suc 0), (RelocateData 2 (Suc 0) 0, Suc (Suc 0))],
             ts_run_stats =
               \<lparr> ts_iterations = 0, ts_best_cost_history = [40, 40, 40],
                 ts_current_cost_history = [40, 40, 40], tabu_violations = Suc (Suc (Suc (Suc 0))),
                 aspiration_acceptances = 0 \<rparr> \<rparr>"
  by (simp add: tabu_run_def copy_def opposite_start_cost opposite_step_0 opposite_step_1
      opposite_step_2 opposite_stop_3)

lemma opposite_run_4:
  "tabu_run (short_tabu 4) fixed_tabu_draws (opposite_at [[0, 1, 0], [0, 2, 0]])
   = Inr \<lparr> ts_current_solution = opposite_at [[0, 2, 0], [0, 1, 0]],
             ts_best_solution = opposite_at [[0, 1, 0], [0, 2, 0]],
             ts_iteration = Suc (Suc (Suc (Suc 0))), no_improvement_count = Suc (Suc (Suc (Suc 0))),
             ts_tabu_list = [(SwapData 2 1, 0), (RelocateData 2 0 0, Suc 0), (RelocateData 2 (Suc 0) 0, Suc (Suc 0)),
              (RelocateData 2 0 (Suc 0), Suc (Suc (Suc 0)))],
             ts_run_stats =
               \<lparr> ts_iterations = 0, ts_best_cost_history = [40, 40, 40, 40],
                 ts_current_cost_history = [40, 40, 40, 40], tabu_violations = Suc (Suc (Suc (Suc (Suc 0)))),
                 aspiration_acceptances = 0 \<rparr> \<rparr>"
  by (simp add: tabu_run_def copy_def opposite_start_cost opposite_step_0 opposite_step_1
      opposite_step_2 opposite_step_3 opposite_stop_4)

lemma opposite_neighbors_3:
  "generate_neighborhood 0 (fixed_tabu_draws 3) (opposite_at [[0, 0], [0, 2, 1, 0]])
   = Inr [(opposite_at [[0, 0], [0, 1, 2, 0]], SwapMove 2 1 1 1),
          (opposite_at [[0, 2, 0], [0, 1, 0]], RelocateMove 2 1 0 1 1),
          (opposite_at [[0, 0], [0, 2, 1, 0]], RelocateMove 2 1 1 1 1),
          (opposite_at [[0, 0], [0, 2, 1, 0]], RelocateMove 2 1 1 1 1),
          (opposite_at [[0, 0], [0, 1, 2, 0]], RelocateMove 2 1 1 1 2),
          (opposite_at [[0, 1, 0], [0, 2, 0]], RelocateMove 1 1 0 2 1),
          (opposite_at [[0, 0], [0, 1, 2, 0]], RelocateMove 1 1 1 2 1),
          (opposite_at [[0, 0], [0, 2, 1, 0]], RelocateMove 1 1 1 2 2),
          (opposite_at [[0, 0], [0, 2, 1, 0]], RelocateMove 1 1 1 2 2),
          (opposite_at [[0, 0], [0, 1, 2, 0]], TwoOptMove 1 1 2)]"
  by (simp add: opposite_eval neighborhood_eval)

text \<open>
  The solution that the greedy construction returns; the state of the search after three
  iterations from it, which is where the run with \<open>max_iterations = 3\<close> ends and where
  iteration 3 of every longer run begins; and the neighbourhood that iteration 3 generates.
\<close>

definition opposite_start :: Solution where
  "opposite_start = projr (construct opposite_instance [1, 2])"

definition third_state :: ts_state where
  "third_state = projr (tabu_run (short_tabu 3) fixed_tabu_draws opposite_start)"

definition third_neighbors :: "(Solution \<times> move_info) list" where
  "third_neighbors =
     projr (generate_neighborhood (depot (ts_instance (short_tabu 4))) (fixed_tabu_draws 3)
              (ts_current_solution third_state))"

text \<open>
  C8.  The claim is that the move \<open>_select_best_move\<close> selects never matches a tabu-list
  entry that is still within its tenure, unless its cost is strictly below the best known
  cost.  \<open>_select_best_move\<close> leaves the matching to \<open>_is_tabu_move\<close>, whose relocate case
  compares the routes of the entry crosswise (C2), so a relocate that is the recorded
  entry passes as not tabu.  On the instance above the greedy construction returns the
  routes \<open>[[0, 1, 0], [0, 2, 0]]\<close>.  Iteration 2 of the search moves customer 2 from route
  0 to route 1, and \<open>_update_tabu_list\<close> records the inverse, customer 2 from route 1 to
  route 0.  At iteration 3 the tabu list holds that entry, one iteration old under a tenure
  of 20; \<open>_select_best_move\<close> selects the relocate of customer 2 from route 1 to route 0,
  which is that entry, at cost 40, which is not below the best known cost 40.  \<open>solve\<close>
  applies it: after iteration 3 the list ends with its inverse, and no aspiration has been
  counted.
\<close>

theorem tabu_entry_move_selected:
  "construct opposite_instance [1, 2] = Inr opposite_start
   \<and> routes opposite_start = [[0, 1, 0], [0, 2, 0]]
   \<and> tabu_run (short_tabu 3) fixed_tabu_draws opposite_start = Inr third_state
   \<and> ts_iteration third_state = 3
   \<and> routes (ts_current_solution third_state) = [[0, 0], [0, 2, 1, 0]]
   \<and> total_cost (ts_best_solution third_state) = 40
   \<and> ts_tabu_list third_state
       = [(SwapData 2 1, 0), (RelocateData 2 0 0, 1), (RelocateData 2 1 0, 2)]
   \<and> generate_neighborhood (depot (ts_instance (short_tabu 4))) (fixed_tabu_draws 3)
         (ts_current_solution third_state) = Inr third_neighbors
   \<and> map_option snd
         (fst (select_best_move (ts_tabu_list third_state) (ts_run_stats third_state)
                 third_neighbors (total_cost (ts_best_solution third_state))))
       = Some (RelocateMove 2 1 0 1 1)
   \<and> map_option (total_cost \<circ> fst)
         (fst (select_best_move (ts_tabu_list third_state) (ts_run_stats third_state)
                 third_neighbors (total_cost (ts_best_solution third_state))))
       = Some 40
   \<and> spec_matches (RelocateData 2 1 0) (RelocateMove 2 1 0 1 1)
   \<and> int (ts_iteration third_state) - int 2 < tabu_tenure (short_tabu 4)
   \<and> is_tabu_move (ts_tabu_list third_state) (RelocateMove 2 1 0 1 1) = False
   \<and> map_sum id ts_tabu_list (tabu_run (short_tabu 4) fixed_tabu_draws opposite_start)
       = Inr [(SwapData 2 1, 0), (RelocateData 2 0 0, 1), (RelocateData 2 1 0, 2),
              (RelocateData 2 0 1, 3)]
   \<and> map_sum id (aspiration_acceptances \<circ> ts_run_stats)
         (tabu_run (short_tabu 4) fixed_tabu_draws opposite_start) = Inr 0"
proof -
  have s: "opposite_start = opposite_at [[0, 1, 0], [0, 2, 0]]"
    by (simp add: opposite_start_def opposite_construct)
  have t: "third_state =
           \<lparr> ts_current_solution = opposite_at [[0, 0], [0, 2, 1, 0]],
             ts_best_solution = opposite_at [[0, 1, 0], [0, 2, 0]],
             ts_iteration = Suc (Suc (Suc 0)), no_improvement_count = Suc (Suc (Suc 0)),
             ts_tabu_list = [(SwapData 2 1, 0), (RelocateData 2 0 0, Suc 0), (RelocateData 2 (Suc 0) 0, Suc (Suc 0))],
             ts_run_stats =
               \<lparr> ts_iterations = 0, ts_best_cost_history = [40, 40, 40],
                 ts_current_cost_history = [40, 40, 40], tabu_violations = Suc (Suc (Suc (Suc 0))),
                 aspiration_acceptances = 0 \<rparr> \<rparr>"
    by (simp add: third_state_def s opposite_run_3)
  have n: "third_neighbors =
         [(opposite_at [[0, 0], [0, 1, 2, 0]], SwapMove 2 1 1 1),
          (opposite_at [[0, 2, 0], [0, 1, 0]], RelocateMove 2 1 0 1 1),
          (opposite_at [[0, 0], [0, 2, 1, 0]], RelocateMove 2 1 1 1 1),
          (opposite_at [[0, 0], [0, 2, 1, 0]], RelocateMove 2 1 1 1 1),
          (opposite_at [[0, 0], [0, 1, 2, 0]], RelocateMove 2 1 1 1 2),
          (opposite_at [[0, 1, 0], [0, 2, 0]], RelocateMove 1 1 0 2 1),
          (opposite_at [[0, 0], [0, 1, 2, 0]], RelocateMove 1 1 1 2 1),
          (opposite_at [[0, 0], [0, 2, 1, 0]], RelocateMove 1 1 1 2 2),
          (opposite_at [[0, 0], [0, 2, 1, 0]], RelocateMove 1 1 1 2 2),
          (opposite_at [[0, 0], [0, 1, 2, 0]], TwoOptMove 1 1 2)]"
    by (simp add: third_neighbors_def t opposite_neighbors_3)
  have c: "total_cost (opposite_at [[0, 1, 0], [0, 2, 0]]) = 40"
    "total_cost (opposite_at [[0, 2, 0], [0, 1, 0]]) = 40"
    "total_cost (opposite_at [[0, 0], [0, 2, 1, 0]]) = 40"
    "total_cost (opposite_at [[0, 0], [0, 1, 2, 0]]) = 40"
    "routes (opposite_at [[0, 0], [0, 2, 1, 0]]) = [[0, 0], [0, 2, 1, 0]]"
    by (simp_all add: opposite_eval)
  have sel: "fst (select_best_move (ts_tabu_list third_state) (ts_run_stats third_state)
                 third_neighbors (total_cost (ts_best_solution third_state)))
       = Some (opposite_at [[0, 2, 0], [0, 1, 0]], RelocateMove 2 1 0 1 1)"
    by (simp add: t n c select_best_move_def tabu_type_def move_type_def)
  have g: "generate_neighborhood (depot (ts_instance (short_tabu 4))) (fixed_tabu_draws 3)
         (ts_current_solution third_state) = Inr third_neighbors"
    by (simp add: t n opposite_neighbors_3)
  have "is_tabu_move (ts_tabu_list third_state) (RelocateMove 2 1 0 1 1) = False"
    by (simp add: t tabu_type_def move_type_def)
  moreover have "construct opposite_instance [1, 2] = Inr opposite_start"
    by (simp add: s opposite_construct)
  moreover have "tabu_run (short_tabu 3) fixed_tabu_draws opposite_start = Inr third_state"
    by (simp add: s t opposite_run_3)
  moreover have "ts_tabu_list third_state
       = [(SwapData 2 1, 0), (RelocateData 2 0 0, 1), (RelocateData 2 1 0, 2)]"
    by (simp add: t)
  moreover have "map_sum id ts_tabu_list (tabu_run (short_tabu 4) fixed_tabu_draws opposite_start)
       = Inr [(SwapData 2 1, 0), (RelocateData 2 0 0, 1), (RelocateData 2 1 0, 2),
              (RelocateData 2 0 1, 3)]"
    by (simp add: s opposite_run_4)
  moreover have "map_sum id (aspiration_acceptances \<circ> ts_run_stats)
         (tabu_run (short_tabu 4) fixed_tabu_draws opposite_start) = Inr 0"
    by (simp add: s opposite_run_4)
  moreover have "ts_iteration third_state = 3" "int (ts_iteration third_state) - int 2 < tabu_tenure (short_tabu 4)"
    "routes (ts_current_solution third_state) = [[0, 0], [0, 2, 1, 0]]"
    "total_cost (ts_best_solution third_state) = 40"
    by (simp_all add: t c)
  moreover have "routes opposite_start = [[0, 1, 0], [0, 2, 0]]"
    by (simp add: s opposite_start_cost)
  ultimately show ?thesis using sel g c by simp
qed

section \<open>The best solution of simulated annealing\<close>

text \<open>
  The invariant of the annealing loop.  \<open>c0\<close> is the cost of the initial solution:
  the best cost is the least of \<open>c0\<close> and the costs of the neighbours evaluated so far,
  it is not above the current cost, and one neighbour is evaluated in each iteration.
\<close>

definition sa_invariant :: "real \<Rightarrow> sa_state \<Rightarrow> bool" where
  "sa_invariant c0 st \<longleftrightarrow>
     total_cost (best_solution st) = Min (set (c0 # evaluated st))
     \<and> total_cost (best_solution st) \<le> total_cost (current_solution st)
     \<and> length (evaluated st) = iteration st"

lemma Min_snoc:
  "Min (set (c0 # ev @ [c])) = min (Min (set (c0 # ev))) (c::real)"
proof -
  have "set (c0 # ev @ [c]) = insert c (set (c0 # ev))" by auto
  then show ?thesis by (simp add: min.commute del: set_simps set_append)
qed

lemma sa_step_invariant:
  assumes "sa_step sa d st = Inr st'" and "sa_invariant c0 st"
  shows "sa_invariant c0 st' \<and> iteration st' = iteration st + 1
         \<and> temperature st' = temperature st"
proof -
  from assms(1) obtain cost neighbor accept where
    n: "calculate_cost (generate_neighbor (depot (sa_instance sa)) d (current_solution st))
          = Inr (cost, neighbor)"
    and a: "(if total_cost neighbor - total_cost (current_solution st) < 0 then Inr True
             else metropolis (drawn_uniform d)
                    (total_cost neighbor - total_cost (current_solution st)) (temperature st))
            = Inr accept"
    by (auto simp: sa_step_def Let_def split: sum.splits)
  let ?cn = "total_cost neighbor"
  let ?cur = "total_cost (current_solution st)"
  let ?best = "total_cost (best_solution st)"
  from assms(2) have inv: "?best = Min (set (c0 # evaluated st))" "?best \<le> ?cur"
    "length (evaluated st) = iteration st"
    by (simp_all add: sa_invariant_def)
  have ev: "evaluated st' = evaluated st @ [?cn]" and it: "iteration st' = iteration st + 1"
    and te: "temperature st' = temperature st"
    using assms(1) n a by (auto simp: sa_step_def Let_def split: if_splits)
  have cur: "current_solution st' = (if accept then neighbor else current_solution st)"
    using assms(1) n a by (auto simp: sa_step_def Let_def split: if_splits)
  have best: "best_solution st' =
                (if accept \<and> ?cn - ?cur < 0 \<and> ?cn < ?best then copy neighbor
                 else best_solution st)"
    using assms(1) n a by (auto simp: sa_step_def Let_def split: if_splits)
  have acc: "?cn - ?cur < 0 \<Longrightarrow> accept" using a by simp
  have b: "total_cost (best_solution st') = min ?best ?cn"
    using best inv(2) acc by (auto simp: copy_def min_def)
  have c: "total_cost (best_solution st') \<le> total_cost (current_solution st')"
    using b cur inv(2) by (auto simp: min_def)
  show ?thesis
    using b c ev it te inv by (simp add: sa_invariant_def Min_snoc del: set_simps set_append)
qed

lemma sa_inner_invariant:
  "sa_inner sa oracle n st = Inr st' \<Longrightarrow> sa_invariant c0 st \<Longrightarrow>
   sa_invariant c0 st' \<and> iteration st \<le> iteration st' \<and> (0 < n \<longrightarrow> iteration st < iteration st')"
proof (induction n arbitrary: st)
  case 0
  then show ?case by simp
next
  case (Suc n)
  from Suc.prems(1) obtain st1 where
    s: "sa_step sa (oracle (iteration st)) st = Inr st1"
    and r: "(if int (iteration st1) \<ge> sa_max_iterations sa then Inr st1
            else sa_inner sa oracle n st1) = Inr st'"
    by (auto split: sum.splits)
  note i1 = sa_step_invariant[OF s Suc.prems(2)]
  show ?case
  proof (cases "int (iteration st1) \<ge> sa_max_iterations sa")
    case True
    with r i1 show ?thesis by simp
  next
    case False
    with r have "sa_inner sa oracle n st1 = Inr st'" by simp
    from Suc.IH[OF this] i1 show ?thesis by simp
  qed
qed

lemma cool_down_invariant: "sa_invariant c0 st \<Longrightarrow> sa_invariant c0 (cool_down sa st)"
  by (simp add: sa_invariant_def cool_down_def)

lemma sa_outer_invariant:
  assumes "sa_outer sa oracle st = Some (Inr st')" and "sa_invariant c0 st"
  shows "sa_invariant c0 st'"
proof -
  define P where "P = (\<lambda>(sa::SimulatedAnnealing) (orc::nat \<Rightarrow> draws) st (y::error + sa_state).
      \<forall>st'. y = Inr st' \<longrightarrow> sa_invariant c0 st \<longrightarrow> sa_invariant c0 st')"
  have "P sa oracle st (Inr st')"
  proof (rule sa_outer.raw_induct[where P = P, OF _ assms(1)])
    fix f sa orc st y
    assume IH: "\<And>sa orc st y. f sa orc st = Some y \<Longrightarrow> P sa orc st y"
      and body: "(if final_temp sa < temperature st \<and> int (iteration st) < sa_max_iterations sa
             then case sa_inner sa orc (nat (max_iterations_per_temp sa)) st of
                    Inl e \<Rightarrow> Some (Inl e)
                  | Inr st1 \<Rightarrow> f sa orc (cool_down sa st1)
             else Some (Inr st)) = Some y"
    show "P sa orc st y"
      unfolding P_def
    proof (intro allI impI)
      fix st'
      assume y: "y = Inr st'" and inv: "sa_invariant c0 st"
      show "sa_invariant c0 st'"
      proof (cases "final_temp sa < temperature st \<and> int (iteration st) < sa_max_iterations sa")
        case False
        with body y inv show ?thesis by simp
      next
        case True
        with body y obtain st1 where
          i: "sa_inner sa orc (nat (max_iterations_per_temp sa)) st = Inr st1"
          and o: "f sa orc (cool_down sa st1) = Some (Inr st')"
          by (auto split: sum.splits)
        from sa_inner_invariant[OF i inv] have "sa_invariant c0 (cool_down sa st1)"
          by (simp add: cool_down_invariant)
        with IH[OF o] show ?thesis by (simp add: P_def)
      qed
    qed
  qed
  with assms(2) show ?thesis by (simp add: P_def)
qed

lemma sa_step_iteration:
  "sa_step sa d st = Inr st' \<Longrightarrow> iteration st' = iteration st + 1"
  by (auto simp: sa_step_def Let_def split: sum.splits if_splits)

lemma sa_inner_iteration:
  "sa_inner sa orc n st = Inr st' \<Longrightarrow>
   iteration st \<le> iteration st' \<and> (0 < n \<longrightarrow> iteration st < iteration st')"
proof (induction n arbitrary: st)
  case 0
  then show ?case by simp
next
  case (Suc n)
  from Suc.prems obtain st1 where
    s: "sa_step sa (orc (iteration st)) st = Inr st1"
    and r: "(if int (iteration st1) \<ge> sa_max_iterations sa then Inr st1
            else sa_inner sa orc n st1) = Inr st'"
    by (auto split: sum.splits)
  note i1 = sa_step_iteration[OF s]
  show ?case
  proof (cases "int (iteration st1) \<ge> sa_max_iterations sa")
    case True
    with r i1 show ?thesis by simp
  next
    case False
    with r have "sa_inner sa orc n st1 = Inr st'" by simp
    from Suc.IH[OF this] i1 show ?thesis by simp
  qed
qed

lemma sa_outer_terminates:
  assumes "0 < max_iterations_per_temp sa"
  shows "\<exists>r. sa_outer sa orc st = Some r"
proof (induction "nat (sa_max_iterations sa - int (iteration st))" arbitrary: st rule: less_induct)
  case less
  show ?case
  proof (cases "final_temp sa < temperature st \<and> int (iteration st) < sa_max_iterations sa")
    case False
    then show ?thesis unfolding sa_outer.simps[of sa orc st] by auto
  next
    case True
    show ?thesis
    proof (cases "sa_inner sa orc (nat (max_iterations_per_temp sa)) st")
      case (Inl e)
      with True show ?thesis unfolding sa_outer.simps[of sa orc st] by simp
    next
      case (Inr st1)
      from sa_inner_iteration[OF Inr] assms have "iteration st < iteration st1" by simp
      with True have "nat (sa_max_iterations sa - int (iteration (cool_down sa st1)))
                      < nat (sa_max_iterations sa - int (iteration st))"
        by (simp add: cool_down_def)
      from less[OF this] obtain r where "sa_outer sa orc (cool_down sa st1) = Some r" by blast
      with True Inr show ?thesis unfolding sa_outer.simps[of sa orc st] by simp
    qed
  qed
qed

lemma example_costed:
  "\<exists>s0. calculate_cost example_solution = Inr (60, s0) \<and> routes s0 = [[0, 1, 0], [0, 2, 0]]
        \<and> total_cost s0 = 60 \<and> calculate_cost s0 = Inr (60, s0)"
proof -
  have h: "sol_instance example_solution = Some example_instance"
    by (simp add: example_solution_def new_solution_def)
  have r: "routes example_solution = [[0, 1, 0], [0, 2, 0]]"
    by (simp add: example_solution_def)
  have d: "distances_defined example_instance (routes example_solution)"
    by (simp add: r distances_defined_def route_distances_defined_def)
  have c: "consecutive_distance_sum example_instance (routes example_solution) = 60"
    by (simp add: r consecutive_distance_sum_def route_distance_sum_def distance_or_zero_def)
  from calculate_cost_value[OF h d] r show ?thesis unfolding c by auto
qed

lemma one_relocate_run:
  "\<exists>st. sa_run one_step_annealing relocate_draws example_solution = Some (Inr st)
      \<and> routes (best_solution st) = [[0, 0], [0, 1, 2, 0]]
      \<and> total_cost (best_solution st) = 45 \<and> evaluated st = [45] \<and> iteration st = 1"
proof -
  from example_costed obtain s0 where
    s0: "calculate_cost example_solution = Inr (60, s0)" "routes s0 = [[0, 1, 0], [0, 2, 0]]"
        "total_cost s0 = 60" by blast
  have i0: "sol_instance s0 = Some example_instance"
    using calculate_cost_result(3)[OF s0(1)] by (simp add: example_solution_def new_solution_def)
  let ?st0 = "\<lparr> current_solution = s0, best_solution = s0,
                temperature = 1000, iteration = 0, run_stats = new_sa_stats,
                evaluated = [] \<rparr>"
  have p: "sa_max_iterations one_step_annealing = 1" "final_temp one_step_annealing = 1"
    "max_iterations_per_temp one_step_annealing = 100" "initial_temp one_step_annealing = 1000"
    "sa_stats one_step_annealing = new_sa_stats" "cooling_rate one_step_annealing = 95 / 100"
    "depot (sa_instance one_step_annealing) = 0"
    by (simp_all add: one_step_annealing_def new_simulated_annealing_def example_instance_def)
  let ?n = "s0\<lparr>routes := [[0, 0], [0, 1, 2, 0]]\<rparr>"
  have g: "generate_neighbor (depot (sa_instance one_step_annealing)) (relocate_draws 0) s0 = ?n"
    by (simp add: p generate_neighbor_def relocate_draws_def relocate_customer_def copy_def
        s0(2) randint_def enumerate_list_def list_pop_def list_insert_def Let_def)
  have ni: "sol_instance ?n = Some example_instance" using i0 by simp
  have nd: "distances_defined example_instance (routes ?n)"
    by (simp add: distances_defined_def route_distances_defined_def)
  have nc: "consecutive_distance_sum example_instance (routes ?n) = 45"
    by (simp add: consecutive_distance_sum_def route_distance_sum_def distance_or_zero_def)
  from calculate_cost_value[OF ni nd] obtain n1 where
    n1: "calculate_cost ?n = Inr (45, n1)" "routes n1 = [[0, 0], [0, 1, 2, 0]]"
        "total_cost n1 = 45"
    unfolding nc by auto
  obtain st1 where st1: "sa_step one_step_annealing (relocate_draws 0) ?st0 = Inr st1"
    "best_solution st1 = n1" "evaluated st1 = [45]" "iteration st1 = 1"
    "temperature st1 = 1000"
    by (simp add: sa_step_def g n1 s0 Let_def copy_def)
  have i: "sa_inner one_step_annealing relocate_draws 100 ?st0 = Inr st1"
    using st1 by (simp add: p numeral_eq_Suc del: sa_inner.simps add: sa_inner.simps(2))
  have o1: "sa_outer one_step_annealing relocate_draws (cool_down one_step_annealing st1)
            = Some (Inr (cool_down one_step_annealing st1))"
    unfolding sa_outer.simps[of one_step_annealing relocate_draws "cool_down one_step_annealing st1"]
    using st1 by (simp add: p cool_down_def)
  have o0: "sa_outer one_step_annealing relocate_draws ?st0
            = Some (Inr (cool_down one_step_annealing st1))"
    unfolding sa_outer.simps[of one_step_annealing relocate_draws ?st0]
    using i o1 by (simp add: p)
  have "sa_run one_step_annealing relocate_draws example_solution
          = Some (Inr (cool_down one_step_annealing st1))"
    using o0 s0 by (simp add: sa_run_def copy_def p)
  with st1 n1 show ?thesis by (simp add: cool_down_def)
qed

text \<open>
  C1.  When \<open>solve\<close> returns, the \<open>total_cost\<close> of the solution it returns is the minimum
  of the cost of the initial solution and of the costs of all the neighbours evaluated
  during the run, accepted or not.  The cost of the initial solution is the one that
  \<open>calculate_cost\<close> gives the copy that \<open>solve\<close> starts from: the sum of the distances
  along its routes when an instance is attached.  \<open>evaluated\<close> lists the cost of the
  neighbour of every iteration.  \<open>solve\<close> returns (a solution or an exception) whenever
  \<open>max_iterations_per_temp\<close> is positive.
\<close>

theorem sa_returns_minimum_cost_observed:
  "(0 < max_iterations_per_temp sa \<longrightarrow>
      (\<exists>r. sa_solve sa orc initial_solution = Some r))
   \<and> (\<forall>best sa1. sa_solve sa orc initial_solution = Some (Inr (best, sa1)) \<longrightarrow>
        (\<exists>c0 s0 st. calculate_cost (copy initial_solution) = Inr (c0, s0)
            \<and> (\<forall>inst. sol_instance initial_solution = Some inst \<longrightarrow>
                   total_cost s0 = consecutive_distance_sum inst (routes initial_solution))
            \<and> sa_run sa orc initial_solution = Some (Inr st)
            \<and> best = best_solution st
            \<and> length (evaluated st) = iteration st
            \<and> total_cost best = Min (set (total_cost s0 # evaluated st))))"
proof (intro conjI allI impI)
  assume "0 < max_iterations_per_temp sa"
  then have "\<exists>r. sa_run sa orc initial_solution = Some r"
    using sa_outer_terminates[of sa orc]
    by (cases "calculate_cost (copy initial_solution)") (auto simp: sa_run_def)
  then show "\<exists>r. sa_solve sa orc initial_solution = Some r"
    by (auto simp: sa_solve_def split: sum.splits)
next
  fix best sa1
  assume solve: "sa_solve sa orc initial_solution = Some (Inr (best, sa1))"
  then obtain st where run: "sa_run sa orc initial_solution = Some (Inr st)"
    and best: "best = best_solution st"
    by (auto simp: sa_solve_def split: option.splits sum.splits)
  from run obtain c0 s0 where
    c: "calculate_cost (copy initial_solution) = Inr (c0, s0)"
    and o: "sa_outer sa orc
              \<lparr> current_solution = s0, best_solution = copy s0,
                temperature = initial_temp sa, iteration = 0, run_stats = sa_stats sa,
                evaluated = [] \<rparr> = Some (Inr st)"
    by (auto simp: sa_run_def split: sum.splits)
  have c0: "\<forall>inst. sol_instance initial_solution = Some inst \<longrightarrow>
              total_cost s0 = consecutive_distance_sum inst (routes initial_solution)"
    using calculate_cost_attached[of initial_solution c0 s0] c by (simp add: copy_def)
  have "sa_invariant (total_cost s0)
          \<lparr> current_solution = s0, best_solution = copy s0,
            temperature = initial_temp sa, iteration = 0, run_stats = sa_stats sa,
            evaluated = [] \<rparr>"
    by (simp add: sa_invariant_def copy_def)
  from sa_outer_invariant[OF o this] have
    "length (evaluated st) = iteration st"
    "total_cost (best_solution st) = Min (set (total_cost s0 # evaluated st))"
    by (simp_all add: sa_invariant_def)
  with c c0 run best
  show "\<exists>c0 s0 st. calculate_cost (copy initial_solution) = Inr (c0, s0)
            \<and> (\<forall>inst. sol_instance initial_solution = Some inst \<longrightarrow>
                   total_cost s0 = consecutive_distance_sum inst (routes initial_solution))
            \<and> sa_run sa orc initial_solution = Some (Inr st)
            \<and> best = best_solution st
            \<and> length (evaluated st) = iteration st
            \<and> total_cost best = Min (set (total_cost s0 # evaluated st))"
    by blast
qed

theorem sa_returns_minimum_cost_observed_witness:
  "0 < max_iterations_per_temp one_step_annealing
   \<and> (\<exists>best sa1 s0 st.
         sa_solve one_step_annealing relocate_draws example_solution = Some (Inr (best, sa1))
         \<and> calculate_cost (copy example_solution) = Inr (60, s0) \<and> total_cost s0 = 60
         \<and> sa_run one_step_annealing relocate_draws example_solution = Some (Inr st)
         \<and> evaluated st = [45]
         \<and> total_cost best = Min (set (total_cost s0 # evaluated st))
         \<and> total_cost best = 45)"
proof -
  have p: "0 < max_iterations_per_temp one_step_annealing"
    by (simp add: one_step_annealing_def new_simulated_annealing_def)
  from one_relocate_run obtain st where
    st: "sa_run one_step_annealing relocate_draws example_solution = Some (Inr st)"
    "evaluated st = [45]" by blast
  then obtain best sa1 where
    b: "sa_solve one_step_annealing relocate_draws example_solution = Some (Inr (best, sa1))"
    by (simp add: sa_solve_def)
  from example_costed obtain s where
    s: "calculate_cost (copy example_solution) = Inr (60, s)" "total_cost s = 60"
    by (auto simp: copy_def)
  from sa_returns_minimum_cost_observed[of one_step_annealing relocate_draws example_solution] b
  obtain c0 s0 st' where
    r: "calculate_cost (copy example_solution) = Inr (c0, s0)"
       "sa_run one_step_annealing relocate_draws example_solution = Some (Inr st')"
       "total_cost best = Min (set (total_cost s0 # evaluated st'))"
    by blast
  from r(1) s(1) have "s0 = s" by simp
  moreover from r(2) st(1) have "st' = st" by simp
  ultimately have m: "total_cost best = Min (set (total_cost s # evaluated st))"
    using r(3) by simp
  then have "total_cost best = 45" using s(2) st(2) by simp
  with p b s st m show ?thesis by blast
qed

section \<open>The best cost against the initial cost\<close>

lemma tabu_loop_best:
  "tabu_loop ts orc st = Inr st' \<Longrightarrow>
   total_cost (ts_best_solution st') \<le> total_cost (ts_best_solution st)"
proof (induction ts orc st rule: tabu_loop.induct)
  case (1 ts orc st)
  note unfold = tabu_loop.simps[of ts orc st]
  show ?case
  proof (cases "int (ts_iteration st) < ts_max_iterations ts
                \<and> int (no_improvement_count st) < max_no_improvement ts")
    case False
    with "1.prems" show ?thesis by (auto simp: unfold)
  next
    case True
    show ?thesis
    proof (cases "generate_neighborhood (depot (ts_instance ts)) (orc (ts_iteration st))
                    (ts_current_solution st)")
      case (Inl e)
      with "1.prems" True show ?thesis by (simp add: unfold)
    next
      case (Inr neighbors)
      show ?thesis
      proof (cases "neighbors = []")
        case e: True
        with "1.prems" True Inr show ?thesis by (simp add: unfold)
      next
        case ne: False
        obtain sel stats1 where
          sel: "select_best_move (ts_tabu_list st) (ts_run_stats st) neighbors
                  (total_cost (ts_best_solution st)) = (sel, stats1)"
          by (cases "select_best_move (ts_tabu_list st) (ts_run_stats st) neighbors
                  (total_cost (ts_best_solution st))")
        show ?thesis
        proof (cases sel)
          case None
          with "1.prems" True Inr ne sel show ?thesis by (auto simp: unfold)
        next
          case (Some nm)
          obtain best_neighbor move where nm: "nm = (best_neighbor, move)" by (cases nm)
          show ?thesis
          proof (cases "calculate_cost best_neighbor")
            case cl: (Inl e)
            with "1.prems" True Inr ne sel Some nm show ?thesis by (simp add: unfold)
          next
            case cr: (Inr p)
            obtain cost current where p: "p = (cost, current)" by (cases p)
            define improved where
              "improved = (total_cost current < total_cost (ts_best_solution st))"
            define best where
              "best = (if improved then copy current else ts_best_solution st)"
            define st1 where "st1 =
               \<lparr> ts_current_solution = current, ts_best_solution = best,
                 ts_iteration = ts_iteration st + 1,
                 no_improvement_count = (if improved then 0 else no_improvement_count st + 1),
                 ts_tabu_list = update_tabu_list (tabu_tenure ts) move (ts_iteration st)
                                  (ts_tabu_list st),
                 ts_run_stats = stats1
                   \<lparr> ts_current_cost_history :=
                       ts_current_cost_history stats1 @ [total_cost current],
                     ts_best_cost_history :=
                       ts_best_cost_history stats1 @ [total_cost best] \<rparr> \<rparr>"
            from "1.prems" True Inr ne sel Some nm cr p
            have run: "tabu_loop ts orc st1 = Inr st'"
              by (simp add: unfold Let_def st1_def best_def improved_def)
            have "total_cost (ts_best_solution st') \<le> total_cost (ts_best_solution st1)"
              using "1.IH"[OF True Inr ne sel[symmetric] Some nm[symmetric] cr p[symmetric]
                  improved_def best_def, folded st1_def, OF run] .
            also have "\<dots> \<le> total_cost (ts_best_solution st)"
              by (simp add: st1_def best_def improved_def copy_def)
            finally show ?thesis .
          qed
        qed
      qed
    qed
  qed
qed

lemma sa_best_le_initial:
  assumes "sa_run sa orc initial_solution = Some (Inr st)"
    and "calculate_cost (copy initial_solution) = Inr (c0, s0)"
  shows "total_cost (best_solution st) \<le> total_cost s0"
proof -
  from assms have o: "sa_outer sa orc
              \<lparr> current_solution = s0, best_solution = copy s0,
                temperature = initial_temp sa, iteration = 0, run_stats = sa_stats sa,
                evaluated = [] \<rparr> = Some (Inr st)"
    by (simp add: sa_run_def)
  have "sa_invariant (total_cost s0)
          \<lparr> current_solution = s0, best_solution = copy s0,
            temperature = initial_temp sa, iteration = 0, run_stats = sa_stats sa,
            evaluated = [] \<rparr>"
    by (simp add: sa_invariant_def copy_def)
  from sa_outer_invariant[OF o this]
  have "total_cost (best_solution st) = Min (set (total_cost s0 # evaluated st))"
    by (simp add: sa_invariant_def)
  then show ?thesis by simp
qed

lemma single_costed:
  "\<exists>s0. calculate_cost single_solution = Inr (20, s0) \<and> routes s0 = [[0, 1, 0]]
        \<and> total_cost s0 = 20 \<and> calculate_cost s0 = Inr (20, s0)"
proof -
  have h: "sol_instance single_solution = Some late_instance"
    by (simp add: single_solution_def new_solution_def)
  have r: "routes single_solution = [[0, 1, 0]]"
    by (simp add: single_solution_def)
  have d: "distances_defined late_instance (routes single_solution)"
    by (simp add: r distances_defined_def route_distances_defined_def late_distance)
  have c: "consecutive_distance_sum late_instance (routes single_solution) = 20"
    by (simp add: r consecutive_distance_sum_def route_distance_sum_def distance_or_zero_def
        late_distance)
  from calculate_cost_value[OF h d] r show ?thesis unfolding c by auto
qed

lemma one_step_tabu_run:
  "\<exists>st. tabu_run one_step_tabu fixed_tabu_draws single_solution = Inr st
      \<and> total_cost (ts_best_solution st) = 20 \<and> ts_iteration st = 1
      \<and> ts_tabu_list st = [(RelocateData 1 0 0, 0)]"
proof -
  from single_costed obtain s0 where
    s0: "calculate_cost single_solution = Inr (20, s0)" "routes s0 = [[0, 1, 0]]"
        "total_cost s0 = 20" "calculate_cost s0 = Inr (20, s0)" by blast
  have same: "s0\<lparr>routes := [[0, 1, 0]]\<rparr> = s0"
    using s0(2) by (cases s0) simp
  have p: "ts_max_iterations one_step_tabu = 1" "max_no_improvement one_step_tabu = 200"
    "tabu_tenure one_step_tabu = 20" "tabu_list one_step_tabu = []"
    "ts_stats one_step_tabu = new_ts_stats" "depot (ts_instance one_step_tabu) = 0"
    by (simp_all add: one_step_tabu_def new_tabu_search_def late_instance_def)
  let ?m = "RelocateMove 1 0 0 (Suc 0) (Suc 0)"
  have sw: "generate_swap_moves 0 (swap_rand (fixed_tabu_draws 0)) s0 = Inr []"
    by (simp add: generate_swap_moves_def all_customers_def enumerate_list_def s0(2))
  have rn: "relocate_neighbor s0 0 (Suc 0) 1 0 (Suc 0) = Inr (s0, ?m)"
    "relocate_neighbor s0 0 (Suc 0) 1 0 (Suc (Suc 0)) = Inr (s0, ?m)"
    by (simp_all add: relocate_neighbor_def copy_def s0 list_pop_def list_insert_def same)
  have re: "generate_relocate_moves 0 s0 = Inr [(s0, ?m), (s0, ?m)]"
    by (simp add: generate_relocate_moves_def enumerate_list_def s0(2) rn upt_rec)
  have tw: "generate_2opt_moves (two_opt_rand (fixed_tabu_draws 0)) s0 = Inr []"
    by (simp add: generate_2opt_moves_def enumerate_list_def s0(2))
  have nb: "generate_neighborhood 0 (fixed_tabu_draws 0) s0 = Inr [(s0, ?m), (s0, ?m)]"
    by (simp add: generate_neighborhood_def sw re tw)
  have sel: "select_best_move [] new_ts_stats [(s0, ?m), (s0, ?m)] 20 = (Some (s0, ?m), new_ts_stats)"
    by (simp add: select_best_move_def s0(3))
  have up: "update_tabu_list 20 ?m 0 [] = [(RelocateData 1 0 0, 0)]"
    by (simp add: update_tabu_list_def reverse_move_def)
  let ?st0 = "\<lparr> ts_current_solution = s0, ts_best_solution = s0,
              ts_iteration = 0, no_improvement_count = 0, ts_tabu_list = [],
              ts_run_stats = new_ts_stats \<rparr>"
  let ?st1 = "\<lparr> ts_current_solution = s0, ts_best_solution = s0,
              ts_iteration = Suc 0, no_improvement_count = Suc 0,
              ts_tabu_list = [(RelocateData 1 0 0, 0)],
              ts_run_stats = new_ts_stats
                \<lparr> ts_current_cost_history := ts_current_cost_history new_ts_stats @ [20],
                  ts_best_cost_history := ts_best_cost_history new_ts_stats @ [20] \<rparr> \<rparr>"
  have l1: "tabu_loop one_step_tabu fixed_tabu_draws ?st1 = Inr ?st1"
    unfolding tabu_loop.simps[of one_step_tabu fixed_tabu_draws ?st1] by (simp add: p)
  have l0: "tabu_loop one_step_tabu fixed_tabu_draws ?st0 = Inr ?st1"
    unfolding tabu_loop.simps[of one_step_tabu fixed_tabu_draws ?st0]
    by (simp add: p nb sel s0 up l1 Let_def copy_def)
  have "tabu_run one_step_tabu fixed_tabu_draws single_solution = Inr ?st1"
    using l0 s0 by (simp add: tabu_run_def copy_def p)
  with s0 show ?thesis by simp
qed

text \<open>
  The \<open>total_cost\<close> of a solution is up to date when \<open>calculate_cost\<close>, if it returns, leaves
  \<open>total_cost\<close> as it is.  That is the case after every call of \<open>calculate_cost\<close>, and so
  for every solution that \<open>construct\<close> returns.
\<close>

definition cost_up_to_date :: "Solution \<Rightarrow> bool" where
  "cost_up_to_date s \<longleftrightarrow>
     (case calculate_cost s of
        Inl e \<Rightarrow> True
      | Inr (cost, s') \<Rightarrow> total_cost s' = total_cost s)"

lemma calculate_cost_again:
  assumes "calculate_cost s = Inr (c, s')"
  shows "\<exists>c'. calculate_cost s' = Inr (c', s')"
  using assms by (auto simp: calculate_cost_def split: option.splits sum.splits)

lemma calculate_cost_up_to_date:
  assumes "calculate_cost s = Inr (c, s')"
  shows "cost_up_to_date s'"
  using calculate_cost_again[OF assms] by (auto simp: cost_up_to_date_def)

lemma construct_up_to_date:
  assumes "construct inst unvisited0 = Inr solution"
  shows "cost_up_to_date solution"
  using assms
  by (auto simp: construct_def split: sum.splits intro: calculate_cost_up_to_date)

lemma run_from_costed:
  assumes "calculate_cost s = Inr (c, s')"
  shows "sa_run sa orc s' = sa_run sa orc s" and "tabu_run ts torc s' = tabu_run ts torc s"
  using calculate_cost_again[OF assms] assms
  by (auto simp: sa_run_def tabu_run_def copy_def)

lemma example_construct:
  "\<exists>sol. construct example_instance [1, 2] = Inr sol
         \<and> calculate_cost example_solution = Inr (60, sol) \<and> total_cost sol = 60"
proof -
  let ?b = "new_solution (Some example_instance)"
  have f: "depot example_instance = 0" "vehicle_capacities example_instance = [20, 20]"
    "vehicle_count example_instance = 2" "capacity example_instance = 20"
    "demand_of example_instance 1 = 10" "demand_of example_instance 2 = 15"
    "\<And>c t. is_feasible_time_window example_instance c t"
    "\<And>c t. get_waiting_time example_instance c t = 0"
    "\<And>c. service_time_of example_instance c = 0"
    by (simp_all add: example_instance_def demand_of_def is_feasible_time_window_def
        get_waiting_time_def service_time_of_def)
  have b1: "build_route example_instance [1, 2] 0 = Inr ([0, 1, 0], [2])"
    by (simp add: build_route_def build_route_loop.simps set_remove_def f)
  have b2: "build_route example_instance [2] (Suc 0) = Inr ([0, 2, 0], [])"
    by (simp add: build_route_def build_route_loop.simps set_remove_def f)
  have a1: "add_route 0 [0, 1, 0] ?b = ?b\<lparr>routes := [[0, 1, 0]]\<rparr>"
    by (simp add: add_route_def new_solution_def normalize_route_def)
  have a2: "add_route 0 [0, 2, 0] (?b\<lparr>routes := [[0, 1, 0]]\<rparr>) = example_solution"
    by (simp add: add_route_def new_solution_def normalize_route_def example_solution_def)
  have v: "construct_vehicles example_instance (?b, [1, 2], 0) = Inr (example_solution, [])"
    by (simp add: construct_vehicles.simps b1 b2 a1 a2 remove_visited_def f)
  have e: "construct_extra example_instance (example_solution, []) = Inr (example_solution, [])"
    by (simp add: construct_extra.simps)
  from example_costed obtain s0 where
    "calculate_cost example_solution = Inr (60, s0)" "total_cost s0 = 60" by blast
  then show ?thesis by (simp add: construct_def v e)
qed

text \<open>
  C7.  The initial solution of a run is the solution of a construction heuristic, and
  \<open>construct\<close> ends with \<open>calculate_cost\<close>: its \<open>total_cost\<close> is up to date.  For every
  such initial solution, and for every other solution whose \<open>total_cost\<close> is up to date,
  the solution that \<open>SimulatedAnnealing.solve\<close> returns and the solution that
  \<open>TabuSearch.solve\<close> returns have a \<open>total_cost\<close> that is at most the \<open>total_cost\<close> of the
  initial solution, for a run of any number of iterations and any draws.  The annealing
  returns (a solution or an exception) whenever \<open>max_iterations_per_temp\<close> is positive; the
  tabu search always does.
\<close>

theorem best_cost_at_most_initial_cost:
  assumes "construct inst customers = Inr initial_solution \<or> cost_up_to_date initial_solution"
  shows "(\<forall>best sa1. sa_solve sa orc initial_solution = Some (Inr (best, sa1)) \<longrightarrow>
            total_cost best \<le> total_cost initial_solution)
       \<and> (\<forall>best ts1. tabu_solve ts torc initial_solution = Inr (best, ts1) \<longrightarrow>
            total_cost best \<le> total_cost initial_solution)
       \<and> (0 < max_iterations_per_temp sa \<longrightarrow>
            (\<exists>result. sa_solve sa orc initial_solution = Some result))"
proof (intro conjI allI impI)
  from assms construct_up_to_date have u: "cost_up_to_date initial_solution" by blast
  {
    fix best sa1
    assume "sa_solve sa orc initial_solution = Some (Inr (best, sa1))"
    then obtain st where r: "sa_run sa orc initial_solution = Some (Inr st)"
      and b: "best = best_solution st"
      by (auto simp: sa_solve_def split: option.splits sum.splits)
    from r obtain c0 s0 where c: "calculate_cost (copy initial_solution) = Inr (c0, s0)"
      by (cases "calculate_cost (copy initial_solution)") (auto simp: sa_run_def)
    from sa_best_le_initial[OF r c] b have "total_cost best \<le> total_cost s0" by simp
    moreover from u c have "total_cost s0 = total_cost initial_solution"
      by (simp add: cost_up_to_date_def copy_def)
    ultimately show "total_cost best \<le> total_cost initial_solution" by simp
  }
  {
    fix best ts1
    assume "tabu_solve ts torc initial_solution = Inr (best, ts1)"
    then obtain st where run: "tabu_run ts torc initial_solution = Inr st"
      and best: "best = ts_best_solution st"
      by (auto simp: tabu_solve_def split: sum.splits)
    from run obtain c0 s0 where c: "calculate_cost (copy initial_solution) = Inr (c0, s0)"
      by (cases "calculate_cost (copy initial_solution)") (auto simp: tabu_run_def)
    from run c have "tabu_loop ts torc
            \<lparr> ts_current_solution = s0, ts_best_solution = copy s0,
              ts_iteration = 0, no_improvement_count = 0, ts_tabu_list = tabu_list ts,
              ts_run_stats = ts_stats ts \<rparr> = Inr st"
      by (simp add: tabu_run_def)
    from tabu_loop_best[OF this] best have "total_cost best \<le> total_cost s0"
      by (simp add: copy_def)
    moreover from u c have "total_cost s0 = total_cost initial_solution"
      by (simp add: cost_up_to_date_def copy_def)
    ultimately show "total_cost best \<le> total_cost initial_solution" by simp
  }
  {
    assume p: "0 < max_iterations_per_temp sa"
    show "\<exists>result. sa_solve sa orc initial_solution = Some result"
    proof (cases "calculate_cost (copy initial_solution)")
      case (Inl e)
      then show ?thesis by (simp add: sa_solve_def sa_run_def)
    next
      case (Inr p0)
      obtain c0 s0 where "p0 = (c0, s0)" by (cases p0)
      with Inr sa_outer_terminates[OF p, of orc
          "\<lparr> current_solution = s0, best_solution = copy s0,
             temperature = initial_temp sa, iteration = 0, run_stats = sa_stats sa,
             evaluated = [] \<rparr>"]
      show ?thesis by (auto simp: sa_solve_def sa_run_def split: sum.splits)
    qed
  }
qed

theorem best_cost_at_most_initial_cost_witness:
  "(\<exists>sol best sa1. construct example_instance [1, 2] = Inr sol \<and> total_cost sol = 60
      \<and> sa_solve one_step_annealing relocate_draws sol = Some (Inr (best, sa1))
      \<and> iterations (sa_stats sa1) = 1
      \<and> total_cost best = 45 \<and> total_cost best \<le> total_cost sol)
   \<and> (\<exists>sol best ts1. calculate_cost single_solution = Inr (20, sol) \<and> cost_up_to_date sol
      \<and> total_cost sol = 20
      \<and> tabu_solve one_step_tabu fixed_tabu_draws sol = Inr (best, ts1)
      \<and> ts_iterations (ts_stats ts1) = 1
      \<and> total_cost best \<le> total_cost sol)"
proof
  from example_construct obtain sol where
    s: "construct example_instance [1, 2] = Inr sol"
       "calculate_cost example_solution = Inr (60, sol)" "total_cost sol = 60" by blast
  from one_relocate_run run_from_costed(1)[OF s(2)] obtain st where
    r: "sa_run one_step_annealing relocate_draws sol = Some (Inr st)"
       "total_cost (best_solution st) = 45" "iteration st = 1" by auto
  then obtain best sa1 where
    b: "sa_solve one_step_annealing relocate_draws sol = Some (Inr (best, sa1))"
       "total_cost best = 45" "iterations (sa_stats sa1) = 1"
    by (simp add: sa_solve_def)
  note inst = best_cost_at_most_initial_cost[where inst = example_instance
      and customers = "[1, 2]" and initial_solution = sol and sa = one_step_annealing
      and orc = relocate_draws]
  from inst s(1) b(1) have "total_cost best \<le> total_cost sol" by blast
  with s b show "\<exists>sol best sa1. construct example_instance [1, 2] = Inr sol \<and> total_cost sol = 60
      \<and> sa_solve one_step_annealing relocate_draws sol = Some (Inr (best, sa1))
      \<and> iterations (sa_stats sa1) = 1
      \<and> total_cost best = 45 \<and> total_cost best \<le> total_cost sol" by blast
next
  from single_costed obtain sol where
    s: "calculate_cost single_solution = Inr (20, sol)" "total_cost sol = 20" by blast
  from calculate_cost_up_to_date[OF s(1)] have u: "cost_up_to_date sol" .
  from one_step_tabu_run run_from_costed(2)[OF s(1)] obtain st where
    r: "tabu_run one_step_tabu fixed_tabu_draws sol = Inr st" "ts_iteration st = 1" by auto
  then obtain best ts1 where
    b: "tabu_solve one_step_tabu fixed_tabu_draws sol = Inr (best, ts1)"
       "ts_iterations (ts_stats ts1) = 1"
    by (simp add: tabu_solve_def)
  note inst = best_cost_at_most_initial_cost[where initial_solution = sol
      and ts = one_step_tabu and torc = fixed_tabu_draws]
  from inst u b(1) have "total_cost best \<le> total_cost sol" by blast
  with s u b show "\<exists>sol best ts1. calculate_cost single_solution = Inr (20, sol) \<and> cost_up_to_date sol
      \<and> total_cost sol = 20
      \<and> tabu_solve one_step_tabu fixed_tabu_draws sol = Inr (best, ts1)
      \<and> ts_iterations (ts_stats ts1) = 1
      \<and> total_cost best \<le> total_cost sol" by blast
qed

section \<open>Configuration errors of the solver\<close>

lemma degenerate_construct:
  "map_sum id routes (construct degenerate_instance [1]) = Inr [[0, 1, 0]]"
proof -
  have b: "build_route degenerate_instance [1] 0 = Inr ([], [1])"
    by (simp add: build_route_def build_route_loop.simps)
  have v: "construct_vehicles degenerate_instance (new_solution (Some degenerate_instance), [1], 0)
        = Inr (new_solution (Some degenerate_instance), [1])"
    by (simp add: construct_vehicles.simps)
  have r0: "routes (new_solution (Some degenerate_instance)) = []"
    by (simp add: new_solution_def)
  let ?s = "add_route 0 [0, 1, 0] (new_solution (Some degenerate_instance))"
  have e: "construct_extra degenerate_instance (new_solution (Some degenerate_instance), [1])
        = Inr (?s, [])"
    by (simp add: construct_extra.simps r0 b set_remove_def)
  have r: "routes ?s = [[0, 1, 0]]"
    by (simp add: add_route_def new_solution_def normalize_route_def)
  have i: "sol_instance ?s = Some degenerate_instance"
    by (simp add: add_route_def new_solution_def)
  have "distances_defined degenerate_instance (routes ?s)"
    by (simp add: r distances_defined_def route_distances_defined_def)
  from calculate_cost_value[OF i this] r show ?thesis
    by (auto simp: construct_def v e)
qed

lemma solve_greedy_defined:
  assumes "nodes_defined inst (depot inst # set_order env)"
  shows "\<exists>sol. solve_greedy inst env = Inr sol \<and> construct inst (set_order env) = Inr sol"
proof -
  from construct_defined[OF assms] obtain sol where
    "construct inst (set_order env) = Inr sol" "calculate_cost sol = Inr (total_cost sol, sol)"
    by blast
  then show ?thesis by (simp add: solve_greedy_def)
qed

lemma degenerate_greedy:
  "map_option (map_sum id (routes \<circ> fst))
     (solve (new_solver degenerate_instance) example_environment ''greedy'' no_kwargs)
   = Some (Inr [[0, 1, 0]])"
proof -
  have n: "nodes_defined degenerate_instance
             (depot degenerate_instance # set_order example_environment)"
    by (simp add: nodes_defined_def example_environment_def)
  from solve_greedy_defined[OF n] obtain sol where
    g: "solve_greedy degenerate_instance example_environment = Inr sol"
    and c: "construct degenerate_instance (set_order example_environment) = Inr sol"
    by blast
  from c degenerate_construct have "routes sol = [[0, 1, 0]]"
    by (simp add: example_environment_def)
  with g show ?thesis
    by (simp add: solve_def new_solver_def record_solution_def)
qed

text \<open>
  C4.  The claim is that \<open>solve\<close> raises a configuration error on a degenerate instance
  before any search begins.  \<open>solve\<close> has no check on the number of vehicles or on the
  capacity, and neither have the construction heuristic and the instance.  On the
  instance below, with no vehicle and capacity 0, \<open>solve("greedy")\<close> runs the construction,
  which puts the customer on a forced route, and returns that solution.
\<close>

theorem degenerate_instance_is_solved:
  "vehicle_count degenerate_instance = 0 \<and> capacity degenerate_instance = 0
   \<and> unvisited_order degenerate_instance (set_order example_environment)
   \<and> map_option (map_sum id (routes \<circ> fst))
        (solve (new_solver degenerate_instance) example_environment ''greedy'' no_kwargs)
      = Some (Inr [[0, 1, 0]])"
proof -
  have "unvisited_order degenerate_instance (set_order example_environment)"
    by (auto simp: unvisited_order_def example_environment_def degenerate_instance_def)
  with degenerate_greedy show ?thesis by simp
qed

text \<open>
  C4, amended.  \<open>solve\<close> raises ValueError for an algorithm name that is none of the four it
  knows, on every instance and whatever the construction would do: no construction
  heuristic and no metaheuristic runs.  A degenerate instance is no error: with the
  algorithm \<open>greedy\<close>, \<open>solve\<close> returns the solution of the construction on every instance
  on which \<open>get_distance\<close> is defined between the nodes.
\<close>

theorem solve_rejects_unknown_algorithm_only:
  "(algorithm \<notin> {''simulated_annealing'', ''tabu_search'', ''greedy'', ''savings''} \<longrightarrow>
      solve solver env algorithm kw =
        Some (Inl (ValueError (''Unknown algorithm: '' @ algorithm))))
   \<and> (nodes_defined (vs_instance solver) (depot (vs_instance solver) # set_order env) \<longrightarrow>
        (\<exists>solution solver1.
            solve solver env ''greedy'' kw = Some (Inr (solution, solver1))
            \<and> construct (vs_instance solver) (set_order env) = Inr solution))"
proof (intro conjI impI)
  assume "algorithm \<notin> {''simulated_annealing'', ''tabu_search'', ''greedy'', ''savings''}"
  then show "solve solver env algorithm kw =
        Some (Inl (ValueError (''Unknown algorithm: '' @ algorithm)))"
    by (simp add: solve_def record_solution_def)
next
  assume "nodes_defined (vs_instance solver) (depot (vs_instance solver) # set_order env)"
  from solve_greedy_defined[OF this] obtain sol where
    "solve_greedy (vs_instance solver) env = Inr sol"
    "construct (vs_instance solver) (set_order env) = Inr sol" by blast
  then show "\<exists>solution solver1.
            solve solver env ''greedy'' kw = Some (Inr (solution, solver1))
            \<and> construct (vs_instance solver) (set_order env) = Inr solution"
    by (simp add: solve_def record_solution_def)
qed

theorem solve_rejects_unknown_algorithm_only_witness:
  "''nearest'' \<notin> {''simulated_annealing'', ''tabu_search'', ''greedy'', ''savings''}
   \<and> solve (new_solver degenerate_instance) example_environment ''nearest'' no_kwargs
       = Some (Inl (ValueError ''Unknown algorithm: nearest''))
   \<and> nodes_defined degenerate_instance (depot degenerate_instance # set_order example_environment)
   \<and> (\<exists>solution solver1.
         solve (new_solver degenerate_instance) example_environment ''greedy'' no_kwargs
           = Some (Inr (solution, solver1)))"
proof -
  have u: "''nearest'' \<notin> {''simulated_annealing'', ''tabu_search'', ''greedy'', ''savings''}"
    by simp
  have n: "nodes_defined degenerate_instance
             (depot degenerate_instance # set_order example_environment)"
    by (simp add: nodes_defined_def example_environment_def)
  have v: "vs_instance (new_solver degenerate_instance) = degenerate_instance"
    by (simp add: new_solver_def)
  note at_nearest = solve_rejects_unknown_algorithm_only[where algorithm = "''nearest''"
      and solver = "new_solver degenerate_instance" and env = example_environment
      and kw = no_kwargs]
  from at_nearest u have e: "solve (new_solver degenerate_instance) example_environment
      ''nearest'' no_kwargs = Some (Inl (ValueError (''Unknown algorithm: '' @ ''nearest'')))"
    by blast
  from at_nearest n v have "\<exists>solution solver1.
         solve (new_solver degenerate_instance) example_environment ''greedy'' no_kwargs
           = Some (Inr (solution, solver1))"
    by (metis (no_types, lifting))
  with u e n show ?thesis by simp
qed

section \<open>The neighbour is built on a copy\<close>

text \<open>
  The solution at \<open>n\<close> is made of objects allocated at or after \<open>base\<close>: its list of
  routes, and every route in it.
\<close>

definition fresh_solution :: "nat \<Rightarrow> store \<Rightarrow> addr \<Rightarrow> bool" where
  "fresh_solution base st n \<longleftrightarrow>
     base \<le> n \<and>
     (case ref_list st n of
        None \<Rightarrow> False
      | Some refs \<Rightarrow> list_all (\<lambda>a. base \<le> a \<and> int_list st a \<noteq> None) refs)"

lemma int_list_SomeD:
  "int_list st a = Some xs \<Longrightarrow> a < length st \<and> st ! a = IntList xs"
  by (auto simp: int_list_def split: if_splits obj.splits)

lemma ref_list_SomeD:
  "ref_list st a = Some refs \<Longrightarrow> a < length st \<and> st ! a = RefList refs"
  by (auto simp: ref_list_def split: if_splits obj.splits)

lemma int_list_append [simp]:
  "a < length st \<Longrightarrow> int_list (st @ extra) a = int_list st a"
  by (simp add: int_list_def nth_append)

lemma ref_list_append [simp]:
  "a < length st \<Longrightarrow> ref_list (st @ extra) a = ref_list st a"
  by (simp add: ref_list_def nth_append)

lemma int_list_update:
  "int_list (st[b := ob]) a = (if a = b \<and> b < length st
      then (case ob of IntList xs \<Rightarrow> Some xs | RefList refs \<Rightarrow> None) else int_list st a)"
  by (simp add: int_list_def)

lemma ref_list_update:
  "ref_list (st[b := ob]) a = (if a = b \<and> b < length st
      then (case ob of RefList refs \<Rightarrow> Some refs | IntList xs \<Rightarrow> None) else ref_list st a)"
  by (simp add: ref_list_def)

lemma read_all_length: "read_all st refs = Some rs \<Longrightarrow> length rs = length refs"
  by (induction refs arbitrary: rs) (auto split: option.splits)

lemma read_all_nth:
  "read_all st refs = Some rs \<Longrightarrow> i < length refs \<Longrightarrow> int_list st (refs ! i) = Some (rs ! i)"
proof (induction refs arbitrary: rs i)
  case Nil
  then show ?case by simp
next
  case (Cons a refs)
  then show ?case by (cases i) (auto split: option.splits)
qed

lemma read_all_defined:
  "list_all (\<lambda>a. int_list st a \<noteq> None) refs \<Longrightarrow> \<exists>rs. read_all st refs = Some rs"
  by (induction refs) auto

lemma read_all_cong:
  "\<forall>a\<in>set refs. int_list st' a = int_list st a \<Longrightarrow> read_all st' refs = read_all st refs"
  by (induction refs) (auto split: option.splits)

lemma fresh_solution_read:
  assumes "fresh_solution base st n"
  shows "\<exists>refs rs. ref_list st n = Some refs \<and> read_all st refs = Some rs
           \<and> read_routes st n = Some rs \<and> length rs = length refs"
proof -
  from assms obtain refs where r: "ref_list st n = Some refs"
    and a: "list_all (\<lambda>a. base \<le> a \<and> int_list st a \<noteq> None) refs"
    by (auto simp: fresh_solution_def split: option.splits)
  from a have "list_all (\<lambda>a. int_list st a \<noteq> None) refs" by (simp add: list_all_iff)
  from read_all_defined[OF this] obtain rs where "read_all st refs = Some rs" by blast
  with r read_all_length[OF this] show ?thesis by (simp add: read_routes_def)
qed

lemma update_route_fresh:
  assumes f: "fresh_solution base st n" and r: "ref_list st n = Some refs"
    and i: "route_idx < length refs"
  shows "\<exists>st'. update_route st n route_idx g = Some st'
           \<and> take base st' = take base st \<and> length st' = length st
           \<and> ref_list st' n = Some refs \<and> fresh_solution base st' n"
proof -
  from f r have all: "list_all (\<lambda>a. base \<le> a \<and> int_list st a \<noteq> None) refs" and bn: "base \<le> n"
    by (auto simp: fresh_solution_def)
  let ?a = "refs ! route_idx"
  from all i have a: "base \<le> ?a" "int_list st ?a \<noteq> None" by (auto simp: list_all_length)
  then obtain xs where xs: "int_list st ?a = Some xs" by auto
  from int_list_SomeD[OF xs] ref_list_SomeD[OF r] have ne: "?a \<noteq> n" "?a < length st" by auto
  let ?st = "st[?a := IntList (g xs)]"
  have u: "update_route st n route_idx g = Some ?st"
    using r i xs by (simp add: update_route_def)
  have t: "take base ?st = take base st" using a(1) by simp
  have rr: "ref_list ?st n = Some refs" using r ne by (simp add: ref_list_update)
  have "list_all (\<lambda>a. base \<le> a \<and> int_list ?st a \<noteq> None) refs"
    using all ne(2) by (auto simp: list_all_iff int_list_update)
  with rr bn have "fresh_solution base ?st n" by (simp add: fresh_solution_def)
  with u t rr show ?thesis by simp
qed

lemma assign_route_fresh:
  assumes f: "fresh_solution base st n" and r: "ref_list st n = Some refs"
    and i: "route_idx < length refs"
  shows "\<exists>st' refs'. assign_route st n route_idx route = Some st'
           \<and> take base st' = take base st \<and> length st \<le> length st'
           \<and> ref_list st' n = Some refs' \<and> length refs' = length refs
           \<and> fresh_solution base st' n"
proof -
  from f r have all: "list_all (\<lambda>a. base \<le> a \<and> int_list st a \<noteq> None) refs" and bn: "base \<le> n"
    by (auto simp: fresh_solution_def)
  from ref_list_SomeD[OF r] have n: "n < length st" "st ! n = RefList refs" by auto
  let ?refs = "refs[route_idx := length st]"
  let ?st = "(st @ [IntList route])[n := RefList ?refs]"
  have u: "assign_route st n route_idx route = Some ?st"
    using r i by (simp add: assign_route_def)
  have t: "take base ?st = take base st" using bn n by simp
  have rr: "ref_list ?st n = Some ?refs" using n by (simp add: ref_list_update)
  have il: "int_list ?st a \<noteq> None" if "a \<in> set refs" for a
  proof -
    from that all have x: "int_list st a \<noteq> None" by (auto simp: list_all_iff)
    then obtain xs where "int_list st a = Some xs" by auto
    from int_list_SomeD[OF this] n have "a \<noteq> n" "a < length st" by auto
    with x show ?thesis by (simp add: int_list_update)
  qed
  have new: "int_list ?st (length st) \<noteq> None" "base \<le> length st"
    using n bn by (simp_all add: int_list_update int_list_def nth_append)
  have "list_all (\<lambda>a. base \<le> a \<and> int_list ?st a \<noteq> None) ?refs"
    unfolding list_all_iff
  proof
    fix a
    assume "a \<in> set ?refs"
    then have "a = length st \<or> a \<in> set refs"
      using set_update_subset_insert[of refs route_idx "length st"] by auto
    with il new all show "base \<le> a \<and> int_list ?st a \<noteq> None"
      by (auto simp: list_all_iff)
  qed
  with rr bn have "fresh_solution base ?st n" by (simp add: fresh_solution_def)
  with u t rr show ?thesis by simp
qed

lemma randint_range: "a \<le> b \<Longrightarrow> a \<le> randint a b r \<and> randint a b r \<le> b"
proof -
  assume "a \<le> b"
  have "r mod (b - a + 1) < b - a + 1" by simp
  with \<open>a \<le> b\<close> show ?thesis unfolding randint_def by linarith
qed

lemma randint_index: "0 < n \<Longrightarrow> randint 0 (n - 1) r < n"
  using randint_range[of 0 "n - 1" r] by simp

lemma random_sample_length:
  "length (random_sample rand xs k) = min k (length xs)"
proof (induction k arbitrary: rand xs)
  case 0
  show ?case by simp
next
  case (Suc k)
  show ?case
  proof (cases "xs = []")
    case True
    then show ?thesis by simp
  next
    case False
    let ?i = "rand 0 mod length xs"
    have "?i < length xs" using False by simp
    then have "length (take ?i xs @ drop (Suc ?i) xs) = length xs - 1" by simp
    with Suc[of "\<lambda>n. rand (Suc n)" "take ?i xs @ drop (Suc ?i) xs"] False show ?thesis
      by (cases xs) (simp_all add: Let_def)
  qed
qed

lemma random_sample_subset: "set (random_sample rand xs k) \<subseteq> set xs"
proof (induction k arbitrary: rand xs)
  case 0
  show ?case by simp
next
  case (Suc k)
  show ?case
  proof (cases "xs = []")
    case True
    then show ?thesis by simp
  next
    case False
    let ?i = "rand 0 mod length xs"
    have i: "?i < length xs" using False by simp
    have "set (take ?i xs @ drop (Suc ?i) xs) \<subseteq> set xs"
      using set_take_subset[of ?i xs] set_drop_subset[of "Suc ?i" xs] by auto
    with Suc[of "\<lambda>n. rand (Suc n)" "take ?i xs @ drop (Suc ?i) xs"] i False show ?thesis
      by (auto simp: Let_def)
  qed
qed

lemma random_sample_two:
  assumes "2 \<le> length xs"
  shows "\<exists>x y. random_sample rand xs 2 = [x, y] \<and> x \<in> set xs \<and> y \<in> set xs"
proof -
  from random_sample_length[of rand xs 2] assms
  have "length (random_sample rand xs 2) = 2" by simp
  then obtain x y where l: "random_sample rand xs 2 = [x, y]"
    by (cases "random_sample rand xs 2"; cases "tl (random_sample rand xs 2)") auto
  with random_sample_subset[of rand xs 2] show ?thesis by auto
qed

lemma all_customers_index:
  "(r, p, c) \<in> set (all_customers dep rs) \<Longrightarrow> r < length rs"
  by (auto simp: all_customers_def enumerate_list_def dest!: set_zip_leftD)

lemma swap_customers_store_fresh:
  assumes f: "fresh_solution base st n"
  shows "\<exists>st'. swap_customers_store dep rand st n = Some st'
           \<and> take base st' = take base st \<and> fresh_solution base st' n"
proof -
  from fresh_solution_read[OF f] obtain refs rs where
    r: "ref_list st n = Some refs" "read_routes st n = Some rs" "length rs = length refs"
    by blast
  show ?thesis
  proof (cases "length rs < 1 \<or> length (all_customers dep rs) < 2")
    case True
    with r f show ?thesis by (auto simp: swap_customers_store_def Let_def)
  next
    case False
    then have "2 \<le> length (all_customers dep rs)" by simp
    from random_sample_two[OF this, of rand] obtain x y where
      l: "random_sample rand (all_customers dep rs) 2 = [x, y]"
      and m: "x \<in> set (all_customers dep rs)" "y \<in> set (all_customers dep rs)" by blast
    obtain r1 p1 c1 where x: "x = (r1, p1, c1)" by (cases x)
    obtain r2 p2 c2 where y: "y = (r2, p2, c2)" by (cases y)
    from m x y have "r1 < length rs" "r2 < length rs"
      using all_customers_index[of r1 p1 c1 dep rs] all_customers_index[of r2 p2 c2 dep rs]
      by simp_all
    then have i: "r1 < length refs" "r2 < length refs"
      unfolding r(3) .
    from update_route_fresh[OF f r(1) i(1), of "\<lambda>xs. xs[p1 := c2]"] obtain st1 where
      u1: "update_route st n r1 (\<lambda>xs. xs[p1 := c2]) = Some st1"
      "take base st1 = take base st" "ref_list st1 n = Some refs" "fresh_solution base st1 n"
      by blast
    from update_route_fresh[OF u1(4) u1(3) i(2), of "\<lambda>xs. xs[p2 := c1]"] obtain st2 where
      u2: "update_route st1 n r2 (\<lambda>xs. xs[p2 := c1]) = Some st2"
      "take base st2 = take base st1" "fresh_solution base st2 n"
      by blast
    have "swap_customers_store dep rand st n = Some st2"
      using False r l x y u1(1) u2(1) by (simp add: swap_customers_store_def Let_def)
    with u1 u2 show ?thesis by simp
  qed
qed

lemma two_opt_store_fresh:
  assumes f: "fresh_solution base st n"
  shows "\<exists>st'. two_opt_store rand st n = Some st'
           \<and> take base st' = take base st \<and> fresh_solution base st' n"
proof -
  from fresh_solution_read[OF f] obtain refs rs where
    r: "ref_list st n = Some refs" "read_routes st n = Some rs" "length rs = length refs"
    by blast
  let ?idx = "randint 0 (length rs - 1) (rand 0)"
  show ?thesis
  proof (cases "rs = [] \<or> length (rs ! ?idx) < 4")
    case True
    with r f show ?thesis by (auto simp: two_opt_store_def Let_def)
  next
    case False
    then have "0 < length rs" by simp
    from randint_index[OF this, of "rand 0"] have idx: "?idx < length refs"
      unfolding r(3) .
    define i where "i = randint 1 (length (rs ! ?idx) - 3) (rand 1)"
    define j where "j = randint (i + 1) (length (rs ! ?idx) - 2) (rand 2)"
    from assign_route_fresh[OF f r(1) idx, of "two_opt_route (rs ! ?idx) i j"] obtain st1 where
      a: "assign_route st n ?idx (two_opt_route (rs ! ?idx) i j) = Some st1"
      "take base st1 = take base st" "fresh_solution base st1 n" by blast
    have "two_opt_store rand st n = Some st1"
      using False r a(1) by (simp add: two_opt_store_def Let_def i_def j_def)
    with a show ?thesis by simp
  qed
qed

lemma cross_exchange_store_fresh:
  assumes f: "fresh_solution base st n"
  shows "\<exists>st'. cross_exchange_store rand st n = Some st'
           \<and> take base st' = take base st \<and> fresh_solution base st' n"
proof -
  from fresh_solution_read[OF f] obtain refs rs where
    r: "ref_list st n = Some refs" "read_routes st n = Some rs" "length rs = length refs"
    by blast
  show ?thesis
  proof (cases "length rs < 2")
    case True
    with r f show ?thesis by (auto simp: cross_exchange_store_def Let_def)
  next
    case False
    then have "2 \<le> length [0..<length rs]" by simp
    from random_sample_two[OF this, of rand] obtain i1 i2 where
      l: "random_sample rand [0..<length rs] 2 = [i1, i2]"
      and i: "i1 < length refs" "i2 < length refs" using r(3) by auto
    show ?thesis
    proof (cases "length (rs ! i1) \<le> 2 \<or> length (rs ! i2) \<le> 2")
      case True
      with False r f l show ?thesis by (auto simp: cross_exchange_store_def Let_def)
    next
      case long: False
      define start1 where "start1 = randint 1 (length (rs ! i1) - 2) (rand 2)"
      define end1 where "end1 = randint start1 (length (rs ! i1) - 2) (rand 3)"
      define start2 where "start2 = randint 1 (length (rs ! i2) - 2) (rand 4)"
      define end2 where "end2 = randint start2 (length (rs ! i2) - 2) (rand 5)"
      define new1 where "new1 = take start1 (rs ! i1) @ slice (rs ! i2) start2 (end2 + 1)
                                  @ drop (end1 + 1) (rs ! i1)"
      define new2 where "new2 = take start2 (rs ! i2) @ slice (rs ! i1) start1 (end1 + 1)
                                  @ drop (end2 + 1) (rs ! i2)"
      from assign_route_fresh[OF f r(1) i(1), of new1] obtain st1 refs1 where
        a1: "assign_route st n i1 new1 = Some st1" "take base st1 = take base st"
        "ref_list st1 n = Some refs1" "length refs1 = length refs" "fresh_solution base st1 n"
        by blast
      from i(2) a1(4) have "i2 < length refs1" by simp
      from assign_route_fresh[OF a1(5) a1(3) this, of new2] obtain st2 where
        a2: "assign_route st1 n i2 new2 = Some st2" "take base st2 = take base st1"
        "fresh_solution base st2 n" by blast
      have "cross_exchange_store rand st n = Some st2"
        using False long r l a1(1) a2(1)
        by (simp add: cross_exchange_store_def Let_def new1_def new2_def start1_def end1_def
            start2_def end2_def)
      with a1 a2 show ?thesis by simp
    qed
  qed
qed

lemma relocate_customer_store_fresh:
  assumes f: "fresh_solution base st n"
  shows "\<exists>st'. relocate_customer_store dep rand st n = Some st'
           \<and> take base st' = take base st \<and> fresh_solution base st' n"
proof -
  from fresh_solution_read[OF f] obtain refs rs where
    r: "ref_list st n = Some refs" "read_routes st n = Some rs" "length rs = length refs"
    by blast
  let ?sidx = "randint 0 (length rs - 1) (rand 0)"
  let ?positions = "map fst (filter (\<lambda>(i, c). c \<noteq> dep) (enumerate_list (rs ! ?sidx)))"
  show ?thesis
  proof (cases "length rs < 1 \<or> ?positions = []")
    case True
    with r f show ?thesis by (auto simp: relocate_customer_store_def Let_def)
  next
    case False
    then have pos: "0 < length rs" by simp
    from randint_index[OF pos, of "rand 0"] have sidx: "?sidx < length refs"
      unfolding r(3) .
    define source_pos where "source_pos = ?positions ! (rand 1 mod length ?positions)"
    define customer where "customer = rs ! ?sidx ! source_pos"
    from update_route_fresh[OF f r(1) sidx, of "\<lambda>xs. list_pop xs source_pos"] obtain st1 where
      u1: "update_route st n ?sidx (\<lambda>xs. list_pop xs source_pos) = Some st1"
      "take base st1 = take base st" "ref_list st1 n = Some refs" "fresh_solution base st1 n"
      by blast
    from fresh_solution_read[OF u1(4)] u1(3) obtain rs1 where
      r1: "read_routes st1 n = Some rs1" "length rs1 = length refs" by auto
    let ?tidx = "randint 0 (length rs1 - 1) (rand 2)"
    from pos r(3) r1(2) have "0 < length rs1" by simp
    from randint_index[OF this, of "rand 2"] have tidx: "?tidx < length refs"
      unfolding r1(2) .
    define target_pos where "target_pos =
      (if length (rs1 ! ?tidx) \<le> 2 then 1 else randint 1 (length (rs1 ! ?tidx) - 1) (rand 3))"
    from update_route_fresh[OF u1(4) u1(3) tidx, of "\<lambda>xs. list_insert xs target_pos customer"]
    obtain st2 where
      u2: "update_route st1 n ?tidx (\<lambda>xs. list_insert xs target_pos customer) = Some st2"
      "take base st2 = take base st1" "fresh_solution base st2 n"
      by blast
    have "relocate_customer_store dep rand st n = Some st2"
    proof (cases "length (rs1 ! ?tidx) \<le> 2")
      case True
      with False r(2) u1(1) r1(1) u2(1) show ?thesis
        by (simp add: relocate_customer_store_def Let_def source_pos_def customer_def
            target_pos_def)
    next
      case long: False
      with False r(2) u1(1) r1(1) u2(1) show ?thesis
        by (simp add: relocate_customer_store_def Let_def source_pos_def customer_def
            target_pos_def)
    qed
    with u1 u2 show ?thesis by simp
  qed
qed

lemma deepcopy_items_fresh:
  assumes "base \<le> length st"
    and "\<forall>a\<in>set refs. a < base \<and> int_list st a \<noteq> None"
    and "\<forall>a c. map_of memo a = Some c \<longrightarrow>
           a < base \<and> (int_list st a \<noteq> None \<longrightarrow> base \<le> c \<and> int_list st c = int_list st a)"
  shows "\<exists>st1 memo1 copies extra.
           deepcopy_items st memo refs = Some (st1, memo1, copies) \<and> st1 = st @ extra
           \<and> list_all (\<lambda>c. base \<le> c \<and> int_list st1 c \<noteq> None) copies
           \<and> read_all st1 copies = read_all st refs"
  using assms
proof (induction refs arbitrary: st memo)
  case Nil
  show ?case by simp
next
  case (Cons a refs)
  from Cons.prems(2) have a: "a < base" "int_list st a \<noteq> None"
    and rest: "\<forall>a\<in>set refs. a < base \<and> int_list st a \<noteq> None" by simp_all
  from a obtain xs where xs: "int_list st a = Some xs" by auto
  show ?case
  proof (cases "map_of memo a")
    case (Some c)
    with Cons.prems(3) a have c: "base \<le> c" "int_list st c = Some xs" using xs by auto
    from Cons.IH[OF Cons.prems(1) rest Cons.prems(3)] obtain st1 memo1 copies extra where
      ih: "deepcopy_items st memo refs = Some (st1, memo1, copies)" "st1 = st @ extra"
      "list_all (\<lambda>c. base \<le> c \<and> int_list st1 c \<noteq> None) copies"
      "read_all st1 copies = read_all st refs" by blast
    from int_list_SomeD[OF c(2)] ih(2) have c1: "int_list st1 c = Some xs"
      using c(2) by simp
    have "deepcopy_items st memo (a # refs) = Some (st1, memo1, c # copies)"
      using Some ih(1) by simp
    moreover have "read_all st1 (c # copies) = read_all st (a # refs)"
      using c1 xs ih(4) by simp
    ultimately show ?thesis using ih(2,3) c(1) c1 by auto
  next
    case None
    let ?st = "st @ [IntList xs]"
    let ?memo = "(a, length st) # memo"
    have p1: "base \<le> length ?st" using Cons.prems(1) by simp
    have lt: "b < length st" if "b < base" for b using that Cons.prems(1) by simp
    have p2: "\<forall>a\<in>set refs. a < base \<and> int_list ?st a \<noteq> None"
      using rest lt by simp
    have new: "int_list ?st (length st) = Some xs"
      by (simp add: int_list_def)
    have olda: "int_list ?st a = Some xs" using xs lt[OF a(1)] by simp
    have p3: "\<forall>b c. map_of ?memo b = Some c \<longrightarrow>
           b < base \<and> (int_list ?st b \<noteq> None \<longrightarrow> base \<le> c \<and> int_list ?st c = int_list ?st b)"
    proof (intro allI impI)
      fix b c
      assume m: "map_of ?memo b = Some c"
      show "b < base \<and> (int_list ?st b \<noteq> None \<longrightarrow> base \<le> c \<and> int_list ?st c = int_list ?st b)"
      proof (cases "b = a")
        case True
        with m have "c = length st" by simp
        with True a(1) Cons.prems(1) new olda show ?thesis by simp
      next
        case False
        with m have m': "map_of memo b = Some c" by simp
        with Cons.prems(3) have b: "b < base"
          "int_list st b \<noteq> None \<longrightarrow> base \<le> c \<and> int_list st c = int_list st b" by auto
        show ?thesis
        proof (intro conjI impI)
          show "b < base" by (rule b(1))
        next
          assume "int_list ?st b \<noteq> None"
          with lt[OF b(1)] have nb: "int_list st b \<noteq> None" by simp
          with b(2) have cc: "base \<le> c" "int_list st c = int_list st b" by simp_all
          with nb obtain ys where "int_list st c = Some ys" by auto
          from int_list_SomeD[OF this] have "c < length st" by simp
          with cc lt[OF b(1)] show "base \<le> c" "int_list ?st c = int_list ?st b" by simp_all
        qed
      qed
    qed
    from Cons.IH[OF p1 p2 p3] obtain st1 memo1 copies extra where
      ih: "deepcopy_items ?st ?memo refs = Some (st1, memo1, copies)" "st1 = ?st @ extra"
      "list_all (\<lambda>c. base \<le> c \<and> int_list st1 c \<noteq> None) copies"
      "read_all st1 copies = read_all ?st refs" by blast
    have c1: "int_list st1 (length st) = Some xs"
      by (simp add: ih(2) int_list_def nth_append)
    have "read_all ?st refs = read_all st refs"
      by (rule read_all_cong) (use rest lt in simp)
    with ih(4) have ra: "read_all st1 (length st # copies) = read_all st (a # refs)"
      using c1 xs by simp
    have "deepcopy_items st memo (a # refs) = Some (st1, memo1, length st # copies)"
      using None xs ih(1) by simp
    moreover have "st1 = st @ ([IntList xs] @ extra)" using ih(2) by simp
    ultimately show ?thesis using ih(3) c1 ra Cons.prems(1) by auto
  qed
qed

lemma well_formed_read:
  "well_formed st s \<Longrightarrow> \<exists>refs rs. ref_list st s = Some refs
      \<and> (\<forall>a\<in>set refs. a < length st \<and> int_list st a \<noteq> None)
      \<and> read_routes st s = Some rs"
proof -
  assume w: "well_formed st s"
  then obtain refs where r: "ref_list st s = Some refs"
    and a: "list_all (\<lambda>a. int_list st a \<noteq> None) refs"
    by (auto simp: well_formed_def split: option.splits)
  from read_all_defined[OF a] obtain rs where "read_all st refs = Some rs" by blast
  moreover have "\<forall>a\<in>set refs. a < length st \<and> int_list st a \<noteq> None"
    using a by (auto simp: list_all_iff int_list_def split: if_splits)
  ultimately show ?thesis using r by (auto simp: read_routes_def)
qed

lemma copy_store_fresh:
  assumes w: "well_formed st s"
  shows "\<exists>st1. copy_store st s = Some (st1, length st)
           \<and> take (length st) st1 = st \<and> fresh_solution (length st) st1 (length st)
           \<and> read_routes st1 (length st) = read_routes st s"
proof -
  from well_formed_read[OF w] obtain refs rs where
    r: "ref_list st s = Some refs" "\<forall>a\<in>set refs. a < length st \<and> int_list st a \<noteq> None"
    "read_routes st s = Some rs" by blast
  let ?base = "length st"
  let ?st = "st @ [RefList []]"
  from ref_list_SomeD[OF r(1)] have s: "s < ?base" "st ! s = RefList refs" by auto
  have p1: "?base \<le> length ?st" by simp
  have p2: "\<forall>a\<in>set refs. a < ?base \<and> int_list ?st a \<noteq> None" using r(2) by simp
  have "int_list ?st s = None" using s by (simp add: int_list_def nth_append)
  then have p3: "\<forall>a c. map_of [(s, ?base)] a = Some c \<longrightarrow>
           a < ?base \<and> (int_list ?st a \<noteq> None \<longrightarrow> ?base \<le> c \<and> int_list ?st c = int_list ?st a)"
    using s(1) by (auto split: if_splits)
  from deepcopy_items_fresh[OF p1 p2 p3] obtain st1 memo1 copies extra where
    d: "deepcopy_items ?st [(s, ?base)] refs = Some (st1, memo1, copies)" "st1 = ?st @ extra"
    "list_all (\<lambda>c. ?base \<le> c \<and> int_list st1 c \<noteq> None) copies"
    "read_all st1 copies = read_all ?st refs" by blast
  let ?st2 = "st1[?base := RefList copies]"
  have c: "copy_store st s = Some (?st2, ?base)"
    using r(1) d(1) by (simp add: copy_store_def)
  have t: "take ?base ?st2 = st" using d(2) by simp
  have len: "?base < length st1" using d(2) by simp
  have rl: "ref_list ?st2 ?base = Some copies" using len by (simp add: ref_list_update)
  have base_obj: "int_list st1 ?base = None"
    using d(2) by (simp add: int_list_def nth_append)
  have keep: "int_list ?st2 c = int_list st1 c" if "c \<in> set copies" for c
  proof -
    from that d(3) have "int_list st1 c \<noteq> None" by (auto simp: list_all_iff)
    with base_obj have "c \<noteq> ?base" by auto
    then show ?thesis by (simp add: int_list_update)
  qed
  have "list_all (\<lambda>c. ?base \<le> c \<and> int_list ?st2 c \<noteq> None) copies"
    using d(3) keep by (auto simp: list_all_iff)
  with rl have fr: "fresh_solution ?base ?st2 ?base" by (simp add: fresh_solution_def)
  have "read_all ?st2 copies = read_all st1 copies"
    by (rule read_all_cong) (use keep in simp)
  also have "\<dots> = read_all ?st refs" by (rule d(4))
  also have "\<dots> = read_all st refs"
    by (rule read_all_cong) (use r(2) in simp)
  finally have "read_routes ?st2 ?base = read_routes st s"
    using rl r(1) by (simp add: read_routes_def)
  with c t fr show ?thesis by blast
qed

lemma frame_objects:
  assumes "take (length st) st' = st" and "a < length st"
  shows "int_list st' a = int_list st a" and "ref_list st' a = ref_list st a"
proof -
  from assms(1) have "length (take (length st) st') = length st" by simp
  then have l: "length st \<le> length st'" by simp
  from assms have n: "st' ! a = st ! a" by (metis nth_take)
  from l n assms(2) show "int_list st' a = int_list st a" by (simp add: int_list_def)
  from l n assms(2) show "ref_list st' a = ref_list st a" by (simp add: ref_list_def)
qed

lemma frame_solution:
  assumes w: "well_formed st s" and t: "take (length st) st' = st"
  shows "read_routes st' s = read_routes st s" and "well_formed st' s"
proof -
  from well_formed_read[OF w] obtain refs rs where
    r: "ref_list st s = Some refs" "\<forall>a\<in>set refs. a < length st \<and> int_list st a \<noteq> None"
    by blast
  from ref_list_SomeD[OF r(1)] have s: "s < length st" by simp
  from frame_objects(2)[OF t s] r(1) have r': "ref_list st' s = Some refs" by simp
  have same: "\<forall>a\<in>set refs. int_list st' a = int_list st a"
    using r(2) frame_objects(1)[OF t] by simp
  from read_all_cong[OF same] r(1) r' show "read_routes st' s = read_routes st s"
    by (simp add: read_routes_def)
  from same r(2) r' show "well_formed st' s"
    by (simp add: well_formed_def list_all_iff)
qed

lemma operator_store_fresh:
  assumes f: "fresh_solution base st n"
  shows "\<exists>st'. (case op of
                   OpSwap \<Rightarrow> swap_customers_store dep rand st n
                 | OpRelocate \<Rightarrow> relocate_customer_store dep rand st n
                 | OpTwoOpt \<Rightarrow> two_opt_store rand st n
                 | OpCrossExchange \<Rightarrow> cross_exchange_store rand st n) = Some st'
           \<and> take base st' = take base st \<and> fresh_solution base st' n"
proof (cases op)
  case OpSwap
  with swap_customers_store_fresh[OF f, of dep rand] show ?thesis by simp
next
  case OpRelocate
  with relocate_customer_store_fresh[OF f, of dep rand] show ?thesis by simp
next
  case OpTwoOpt
  with two_opt_store_fresh[OF f, of rand] show ?thesis by simp
next
  case OpCrossExchange
  with cross_exchange_store_fresh[OF f, of rand] show ?thesis by simp
qed

text \<open>
  A store with one solution of two routes, \<open>[[0, 1, 0], [0, 2, 0]]\<close>, and draws that select
  the swap and its first two customers.
\<close>

definition example_store :: store where
  "example_store = [RefList [1, 2], IntList [0, 1, 0], IntList [0, 2, 0]]"

definition swap_draws :: draws where
  "swap_draws = \<lparr> drawn_operator = OpSwap, drawn_ints = (\<lambda>n. 0), drawn_uniform = 0 \<rparr>"

lemma example_store_neighbor:
  "generate_neighbor_store 0 swap_draws example_store 0 =
     Some ([RefList [1, 2], IntList [0, 1, 0], IntList [0, 2, 0],
            RefList [4, 5], IntList [0, 2, 0], IntList [0, 1, 0]], 3)"
  by (simp add: generate_neighbor_store_def copy_store_def example_store_def swap_draws_def
      ref_list_def int_list_def swap_customers_store_def read_routes_def all_customers_def
      enumerate_list_def update_route_def Let_def numeral_2_eq_2)

text \<open>
  C9.  For every solution that is well formed in the store and for every operator that
  \<open>random.choices\<close> selects (Swap, Relocate, 2-Opt, CrossExchange) with any draws,
  \<open>_generate_neighbor\<close> returns.  \<open>Solution.copy\<close> gives a solution at a new address whose
  routes have the contents of the routes of the input; the neighbour returned is at that
  address, and its list of routes and every route in it are objects allocated during the
  call, so it shares no list with the input.  Every object that existed before the call
  is unchanged afterwards, so the routes of the input read as before.
\<close>

theorem generate_neighbor_leaves_input_unchanged:
  assumes "well_formed st s"
  shows "\<exists>st1 st'. copy_store st s = Some (st1, length st)
           \<and> read_routes st1 (length st) = read_routes st s
           \<and> generate_neighbor_store dep d st s = Some (st', length st)
           \<and> take (length st) st' = st
           \<and> fresh_solution (length st) st' (length st)
           \<and> read_routes st' s = read_routes st s
           \<and> well_formed st' s"
proof -
  from copy_store_fresh[OF assms] obtain st1 where
    c: "copy_store st s = Some (st1, length st)" "take (length st) st1 = st"
    "fresh_solution (length st) st1 (length st)"
    "read_routes st1 (length st) = read_routes st s" by blast
  from operator_store_fresh[OF c(3), where op = "drawn_operator d" and dep = dep
      and rand = "drawn_ints d"] obtain st2 where
    o: "(case drawn_operator d of
           OpSwap \<Rightarrow> swap_customers_store dep (drawn_ints d) st1 (length st)
         | OpRelocate \<Rightarrow> relocate_customer_store dep (drawn_ints d) st1 (length st)
         | OpTwoOpt \<Rightarrow> two_opt_store (drawn_ints d) st1 (length st)
         | OpCrossExchange \<Rightarrow> cross_exchange_store (drawn_ints d) st1 (length st)) = Some st2"
    "take (length st) st2 = take (length st) st1" "fresh_solution (length st) st2 (length st)"
    by blast
  from c(1) o(1) have g: "generate_neighbor_store dep d st s = Some (st2, length st)"
    by (simp add: generate_neighbor_store_def)
  from o(2) c(2) have t: "take (length st) st2 = st" by simp
  from frame_solution[OF assms t] have "read_routes st2 s = read_routes st s"
    "well_formed st2 s" by simp_all
  with c(1,4) g t o(3) show ?thesis by blast
qed

theorem generate_neighbor_leaves_input_unchanged_witness:
  "well_formed example_store 0
   \<and> generate_neighbor_store 0 swap_draws example_store 0 =
       Some ([RefList [1, 2], IntList [0, 1, 0], IntList [0, 2, 0],
              RefList [4, 5], IntList [0, 2, 0], IntList [0, 1, 0]], 3)
   \<and> take 3 [RefList [1, 2], IntList [0, 1, 0], IntList [0, 2, 0],
              RefList [4, 5], IntList [0, 2, 0], IntList [0, 1, 0]] = example_store
   \<and> fresh_solution 3 [RefList [1, 2], IntList [0, 1, 0], IntList [0, 2, 0],
              RefList [4, 5], IntList [0, 2, 0], IntList [0, 1, 0]] 3
   \<and> read_routes [RefList [1, 2], IntList [0, 1, 0], IntList [0, 2, 0],
              RefList [4, 5], IntList [0, 2, 0], IntList [0, 1, 0]] 0
       = read_routes example_store 0"
proof -
  have w: "well_formed example_store 0"
    by (simp add: well_formed_def example_store_def ref_list_def int_list_def)
  have l: "length example_store = 3" by (simp add: example_store_def)
  note inst = generate_neighbor_leaves_input_unchanged[OF w, of 0 swap_draws]
  with example_store_neighbor l w show ?thesis by auto
qed

end
